theory Spec2Isabelle
  imports Main "HOL-Library.Multiset"
begin

section \<open>Text edits and the patch applier (src/src/cli.ts, lines 210-224)\<close>

text \<open>
  A \<open>TextChange\<close> of the TypeScript API: a span (start offset and length, JavaScript
  numbers that hold integers) and the replacement text; \<open>span_length\<close> is the field
  \<open>length\<close> of the span. Offsets are read as \<open>int\<close>, so that a negative or too large
  offset is an input of the model as it is of the code.
\<close>

record TextSpan =
  start :: int
  span_length :: int

record TextChange =
  span :: TextSpan
  newText :: string

datatype error =
  TypeError string
  | Error string

text \<open>
  \<open>String.prototype.substring(start, end)\<close>: an absent \<open>end\<close> is the length of the
  string, both indices are clamped to \<open>[0, length]\<close>, and the smaller one is the start.
\<close>

definition clampIndex :: "string \<Rightarrow> int \<Rightarrow> nat" where
  "clampIndex s i = nat (min (max i 0) (int (length s)))"

definition substring :: "string \<Rightarrow> int \<Rightarrow> int option \<Rightarrow> string" where
  "substring s startIx endIx =
     (let finalStart = clampIndex s startIx;
          finalEnd = (case endIx of None \<Rightarrow> length s | Some e \<Rightarrow> clampIndex s e);
          from = min finalStart finalEnd;
          to = max finalStart finalEnd
      in take (to - from) (drop from s))"

text \<open>\<open>doTextChangeOnString\<close>: prefix, replacement, suffix.\<close>

definition doTextChangeOnString :: "string \<Rightarrow> TextChange \<Rightarrow> string" where
  "doTextChangeOnString currentFileText change =
     (let prefix = substring currentFileText 0 (Some (start (span change)));
          middle = newText change;
          suffix = substring currentFileText (start (span change) + span_length (span change)) None
      in prefix @ middle @ suffix)"

text \<open>
  Reading \<open>textChanges[i]\<close>: an index outside the array gives \<open>undefined\<close>, and reading
  \<open>.span\<close> of \<open>undefined\<close> throws a TypeError.
\<close>

definition index :: "'a list \<Rightarrow> int \<Rightarrow> 'a option" where
  "index xs i = (if 0 \<le> i \<and> i < int (length xs) then Some (xs ! nat i) else None)"

text \<open>
  \<open>doTextChanges\<close>: the loop \<open>for (let i = textChanges.length - 1; i >= 0; i--)\<close>, with
  the loop variable as the recursion's argument.
\<close>

function doTextChangesLoop :: "TextChange list \<Rightarrow> int \<Rightarrow> string \<Rightarrow> error + string" where
  "doTextChangesLoop textChanges i fileText =
     (if i \<ge> 0 then
        (case index textChanges i of
           None \<Rightarrow> Inl (TypeError ''Cannot read properties of undefined (reading 'span')'')
         | Some change \<Rightarrow> doTextChangesLoop textChanges (i - 1) (doTextChangeOnString fileText change))
      else Inr fileText)"
  by pat_completeness auto
termination
  by (relation "measure (\<lambda>(textChanges, i, fileText). nat (i + 1))") auto

definition doTextChanges :: "string \<Rightarrow> TextChange list \<Rightarrow> error + string" where
  "doTextChanges fileText textChanges =
     doTextChangesLoop textChanges (int (length textChanges) - 1) fileText"

section \<open>Node's \<open>path\<close> module\<close>

text \<open>
  The repository imports Node's \<open>path\<close> module and calls \<open>join\<close>, \<open>dirname\<close>,
  \<open>resolve\<close> and \<open>relative\<close> of it. The functions of the repository take the module
  as a parameter; \<open>join\<close> and \<open>resolve\<close> are variadic.
\<close>

record PathModule =
  pathJoin :: "string list \<Rightarrow> string"
  pathDirname :: "string \<Rightarrow> string"
  pathResolve :: "string list \<Rightarrow> string"
  pathRelative :: "string \<Rightarrow> string \<Rightarrow> string"

subsection \<open>The POSIX flavour of the module\<close>

text \<open>
  Node's \<open>path.posix\<close>, after its documented algorithm: a path is cut at every
  \<open>/\<close>; normalising drops empty and \<open>.\<close> segments and lets \<open>..\<close> remove the segment
  before it (above a relative start it stays, above the root it is dropped).
\<close>

fun splitSlash :: "string \<Rightarrow> string list" where
  "splitSlash [] = [[]]"
| "splitSlash (c # cs) =
     (if c = CHR ''/'' then [] # splitSlash cs
      else (case splitSlash cs of seg # segs \<Rightarrow> (c # seg) # segs | [] \<Rightarrow> [[c]]))"

fun joinSlash :: "string list \<Rightarrow> string" where
  "joinSlash [] = []"
| "joinSlash [seg] = seg"
| "joinSlash (seg # segs) = seg @ ''/'' @ joinSlash segs"

text \<open>\<open>normalizeString\<close>: the stack of segments kept so far is the accumulator.\<close>

fun normalizeSegments :: "bool \<Rightarrow> string list \<Rightarrow> string list \<Rightarrow> string list" where
  "normalizeSegments allowAboveRoot res [] = res"
| "normalizeSegments allowAboveRoot res (seg # segs) =
     (if seg = [] \<or> seg = ''.'' then normalizeSegments allowAboveRoot res segs
      else if seg = ''..'' then
        (if res \<noteq> [] \<and> last res \<noteq> ''..'' then normalizeSegments allowAboveRoot (butlast res) segs
         else if allowAboveRoot then normalizeSegments allowAboveRoot (res @ [''..'']) segs
         else normalizeSegments allowAboveRoot res segs)
      else normalizeSegments allowAboveRoot (res @ [seg]) segs)"

definition normalizeString :: "string \<Rightarrow> bool \<Rightarrow> string" where
  "normalizeString p allowAboveRoot = joinSlash (normalizeSegments allowAboveRoot [] (splitSlash p))"

definition isAbsolute :: "string \<Rightarrow> bool" where
  "isAbsolute p = (case p of [] \<Rightarrow> False | c # cs \<Rightarrow> c = CHR ''/'')"

text \<open>
  \<open>posix.resolve\<close>: the arguments are taken from the right until an absolute one is
  met, then the working directory; empty arguments are passed over.
\<close>

fun resolveArgs :: "string list \<Rightarrow> string \<Rightarrow> string \<times> bool" where
  "resolveArgs [] resolvedPath = (resolvedPath, False)"
| "resolveArgs (p # ps) resolvedPath =
     (if p = [] then resolveArgs ps resolvedPath
      else if isAbsolute p then (p @ ''/'' @ resolvedPath, True)
      else resolveArgs ps (p @ ''/'' @ resolvedPath))"

definition posixResolve :: "string \<Rightarrow> string list \<Rightarrow> string" where
  "posixResolve processCwd args =
     (case resolveArgs (rev (processCwd # args)) [] of
        (resolvedPath, resolvedAbsolute) \<Rightarrow>
          (let normalized = normalizeString resolvedPath (\<not> resolvedAbsolute)
           in if resolvedAbsolute then ''/'' @ normalized
              else if normalized \<noteq> [] then normalized else ''.''))"

definition posixNormalize :: "string \<Rightarrow> string" where
  "posixNormalize p =
     (if p = [] then ''.''
      else
        (let absolute = isAbsolute p;
             trailingSeparator = (last p = CHR ''/'');
             normalized = normalizeString p (\<not> absolute)
         in if normalized = [] then (if absolute then ''/'' else if trailingSeparator then ''./'' else ''.'')
            else (if absolute then ''/'' else []) @ normalized @ (if trailingSeparator then ''/'' else [])))"

definition posixJoin :: "string list \<Rightarrow> string" where
  "posixJoin args =
     (let joined = joinSlash (filter (\<lambda>arg. arg \<noteq> []) args)
      in if joined = [] then ''.'' else posixNormalize joined)"

text \<open>
  \<open>posix.dirname\<close>: trailing slashes are passed over, then the last segment; what is
  left of the slash before it is the directory.
\<close>

definition posixDirname :: "string \<Rightarrow> string" where
  "posixDirname p =
     (if p = [] then ''.''
      else
        (let hasRoot = isAbsolute p;
             body = rev (tl p);
             afterSegment = dropWhile (\<lambda>c. c \<noteq> CHR ''/'') (dropWhile (\<lambda>c. c = CHR ''/'') body)
         in if afterSegment = [] then (if hasRoot then ''/'' else ''.'')
            else if hasRoot \<and> length afterSegment = 1 then ''//''
            else hd p # rev (tl afterSegment)))"

text \<open>
  \<open>posix.relative\<close>: both paths are resolved; one \<open>..\<close> for every segment of \<open>from\<close>
  past the common directories, then the segments of \<open>to\<close> past them.
\<close>

fun dropCommon :: "string list \<Rightarrow> string list \<Rightarrow> string list \<times> string list" where
  "dropCommon (a # as) (b # bs) = (if a = b then dropCommon as bs else (a # as, b # bs))"
| "dropCommon as bs = (as, bs)"

definition pathSegments :: "string \<Rightarrow> string list" where
  "pathSegments p = filter (\<lambda>seg. seg \<noteq> []) (splitSlash p)"

definition posixRelative :: "string \<Rightarrow> string \<Rightarrow> string \<Rightarrow> string" where
  "posixRelative processCwd from to =
     (if from = to then []
      else
        (let fromR = posixResolve processCwd [from];
             toR = posixResolve processCwd [to]
         in if fromR = toR then []
            else (case dropCommon (pathSegments fromR) (pathSegments toR) of
                    (fromRest, toRest) \<Rightarrow> joinSlash (map (\<lambda>seg. ''..'') fromRest @ toRest))))"

definition posix :: "string \<Rightarrow> PathModule" where
  "posix processCwd =
     \<lparr>pathJoin = posixJoin, pathDirname = posixDirname,
      pathResolve = posixResolve processCwd, pathRelative = posixRelative processCwd\<rparr>"

section \<open>The host and the options (lines 67-107)\<close>

text \<open>
  The \<open>Host\<close> interface is the tool's way out: \<open>writeFile\<close>, \<open>log\<close> and \<open>mkdir\<close> are
  effects, kept here as the list of calls made so far, oldest first. \<open>exists\<close> is a
  question to the file system, whose answer may depend on the calls made before it.
\<close>

datatype HostCall =
  WriteFile string string
  | Log string
  | Mkdir string

record Host =
  calls :: "HostCall list"
  existsAnswer :: "HostCall list \<Rightarrow> string \<Rightarrow> bool"
  getNewLine :: string

definition writeFile :: "Host \<Rightarrow> string \<Rightarrow> string \<Rightarrow> Host" where
  "writeFile host fileName content = host\<lparr>calls := calls host @ [WriteFile fileName content]\<rparr>"

definition log :: "Host \<Rightarrow> string \<Rightarrow> Host" where
  "log host s = host\<lparr>calls := calls host @ [Log s]\<rparr>"

definition mkdir :: "Host \<Rightarrow> string \<Rightarrow> Host" where
  "mkdir host directoryPath = host\<lparr>calls := calls host @ [Mkdir directoryPath]\<rparr>"

definition exists :: "Host \<Rightarrow> string \<Rightarrow> bool" where
  "exists host fileName = existsAnswer host (calls host) fileName"

record Options =
  cwd :: string
  tsconfig :: string
  outputFolder :: string
  "file" :: "string list"
  "write" :: bool

section \<open>Subset validation (lines 110-130)\<close>

text \<open>
  \<open>checkOptions\<close>: every requested file is joined to the directory of the tsconfig and
  looked up with \<open>fs.existsSync\<close> (a parameter); the throw is the \<open>Inl\<close> result.
\<close>

definition checkOptions ::
  "PathModule \<Rightarrow> (string \<Rightarrow> bool) \<Rightarrow> Options \<Rightarrow> error + (string list \<times> string list)" where
  "checkOptions P existsSync opt =
     (if length (file opt) \<noteq> 0 then
        (let joined = map (\<lambda>f. pathJoin P [pathDirname P (tsconfig opt), f]) (file opt);
             validFiles = filter existsSync joined;
             invalidFiles = filter (\<lambda>f. \<not> existsSync f) joined
         in if length validFiles = 0 then Inl (Error ''All provided files are invalid'')
            else Inr (validFiles, invalidFiles))
      else Inr ([], []))"

section \<open>The overlay and the project (lines 255-344)\<close>

record ChangedFile =
  originalText :: string
  newFileText :: string

text \<open>
  \<open>newFileText\<close> is the field \<open>newText\<close> of \<open>ChangedFile\<close>. The overlay is the
  \<open>Map<string, ChangedFile>\<close> that \<open>codefixProject\<close> creates and \<open>createProject\<close> closes
  over; the closure \<open>readFile\<close> reads the map as it is at the time of the call, so the
  model's \<open>readFile\<close> takes the map as an argument. \<open>ts.sys.readFile\<close> is a parameter.
\<close>

type_synonym Overlay = "string \<rightharpoonup> ChangedFile"

definition readFile :: "Overlay \<Rightarrow> (string \<Rightarrow> string option) \<Rightarrow> string \<Rightarrow> string option" where
  "readFile changedFiles sysRead p =
     (if changedFiles p \<noteq> None then map_option newFileText (changedFiles p)
      else sysRead p)"

record SourceFile =
  fileName :: string
  isDeclarationFile :: bool
  "text" :: string

text \<open>One entry of \<open>CombinedCodeActions.changes\<close>: the \<open>FileTextChanges\<close> of the API.\<close>

record FileTextChanges =
  changeFileName :: string
  textChanges :: "TextChange list"

text \<open>
  What the repository uses of the TypeScript API: the program's list of source files
  and its lookup by name, and the language service's combined code fix, which reads
  files through the host's \<open>readFile\<close>.
\<close>

record Program =
  getSourceFiles :: "SourceFile list"
  getSourceFile :: "string \<Rightarrow> SourceFile option"

record LanguageService =
  getProgram :: "Program option"
  getCombinedCodeFix :: "(string \<Rightarrow> string option) \<Rightarrow> string \<Rightarrow> FileTextChanges list"

record TypeScript =
  version :: string
  sysReadFile :: "string \<Rightarrow> string option"
  getParsedCommandLineOfConfigFile ::
    "string \<Rightarrow> (string \<Rightarrow> string option) \<Rightarrow> error + (string list) option"
  createLanguageService :: "string list \<Rightarrow> LanguageService"

record Project =
  ts :: TypeScript
  languageService :: LanguageService
  program :: Program

text \<open>
  \<open>createProject\<close>: the parsed command line is kept as its list of file names; an
  unrecoverable diagnostic of the configuration file is thrown by the callback, which
  is the \<open>Inl\<close> result of the parser.
\<close>

definition createProject ::
  "TypeScript \<Rightarrow> PathModule \<Rightarrow> string \<Rightarrow> Overlay \<Rightarrow> error + Project option" where
  "createProject tsApi P tsConfigFilePath changedFiles =
     (case getParsedCommandLineOfConfigFile tsApi (pathResolve P [tsConfigFilePath])
             (readFile changedFiles (sysReadFile tsApi)) of
        Inl e \<Rightarrow> Inl e
      | Inr None \<Rightarrow> Inr None
      | Inr (Some commandLine) \<Rightarrow>
          (let service = createLanguageService tsApi commandLine
           in case getProgram service of
                None \<Rightarrow> Inr None
              | Some prog \<Rightarrow> Inr (Some \<lparr>ts = tsApi, languageService = service, program = prog\<rparr>)))"

section \<open>The fix enumerator (lines 166-207)\<close>

text \<open>
  The test \<open>/[\\/]node_modules[\\/]/.test(fileName)\<close>: somewhere in the name a slash or
  backslash, then \<open>node_modules\<close>, then a slash or backslash.
\<close>

definition isSeparator :: "char \<Rightarrow> bool" where
  "isSeparator c = (c = CHR 0x5C \<or> c = CHR ''/'')"

definition matchesHere :: "string \<Rightarrow> bool" where
  "matchesHere s =
     (case s of
        [] \<Rightarrow> False
      | c # cs \<Rightarrow> isSeparator c \<and> take 12 cs = ''node_modules'' \<and>
          (case drop 12 cs of [] \<Rightarrow> False | d # ds \<Rightarrow> isSeparator d))"

fun testNodeModules :: "string \<Rightarrow> bool" where
  "testNodeModules [] = False"
| "testNodeModules (c # cs) = (if matchesHere (c # cs) then True else testNodeModules cs)"

record FixResult =
  fixFileName :: string
  fixTextChanges :: "TextChange list"

text \<open>
  The generator \<open>genCodeFixesFromProject\<close> visits the source files in order and yields
  at most once for each. \<open>genVisit\<close> is the body of its loop for one source file: the
  result is what is yielded there (\<open>None\<close> for a \<open>continue\<close>) and the host after the
  calls of the body. The language service reads files through \<open>rd\<close>, the overlay-aware
  reader at that time.
\<close>

definition genVisit ::
  "Project \<Rightarrow> (string \<Rightarrow> string option) \<Rightarrow> string set option \<Rightarrow> SourceFile \<Rightarrow> Host
    \<Rightarrow> FixResult option \<times> Host" where
  "genVisit project rd files f host =
     (if testNodeModules (fileName f) then (None, host)
      else if isDeclarationFile f then (None, host)
      else if files \<noteq> None \<and> fileName f \<notin> the files then (None, host)
      else
        (let host1 = log host (''Getting codefixes for '' @ fileName f);
             changes = getCombinedCodeFix (languageService project) rd (fileName f)
         in if length changes = 0 then (None, host1)
            else
              (let host2 = (if length changes > 1
                            then log host1 (''Multiple fixes found for '' @ fileName f)
                            else host1)
               in (Some \<lparr>fixFileName = fileName f, fixTextChanges = textChanges (hd changes)\<rparr>,
                   host2))))"

text \<open>
  The sequence the generator yields when it is run to its end over the source files
  \<open>fs\<close> with one reader, and the host after it.
\<close>

fun genCodeFixesFromProject ::
  "Project \<Rightarrow> (string \<Rightarrow> string option) \<Rightarrow> string set option \<Rightarrow> SourceFile list \<Rightarrow> Host
    \<Rightarrow> FixResult list \<times> Host" where
  "genCodeFixesFromProject project rd files [] host = ([], host)"
| "genCodeFixesFromProject project rd files (f # fs) host =
     (case genVisit project rd files f host of
        (None, host') \<Rightarrow> genCodeFixesFromProject project rd files fs host'
      | (Some r, host') \<Rightarrow>
          (case genCodeFixesFromProject project rd files fs host' of
             (rs, host'') \<Rightarrow> (r # rs, host'')))"

section \<open>The output writer (lines 226-251)\<close>

definition getDirectory :: "PathModule \<Rightarrow> string \<Rightarrow> string" where
  "getDirectory P filePath = pathDirname P filePath"

definition getRelativePath :: "PathModule \<Rightarrow> string \<Rightarrow> Options \<Rightarrow> string" where
  "getRelativePath P filePath opt =
     pathRelative P (getDirectory P (tsconfig opt)) (pathResolve P [filePath])"

definition getOutputFilePath :: "PathModule \<Rightarrow> string \<Rightarrow> Options \<Rightarrow> string" where
  "getOutputFilePath P filePath opt =
     (let name = getRelativePath P filePath opt
      in pathResolve P [outputFolder opt, name])"

definition writeToFile ::
  "PathModule \<Rightarrow> string \<Rightarrow> string \<Rightarrow> Options \<Rightarrow> Host \<Rightarrow> string \<times> Host" where
  "writeToFile P name fileContents opt host =
     (let writeToFileName = getOutputFilePath P name opt;
          writeToDirectory = getDirectory P writeToFileName;
          host1 = (if \<not> exists host writeToDirectory then mkdir host writeToDirectory else host);
          host2 = writeFile host1 writeToFileName fileContents;
          host3 = log host2 (''Updated '' @ pathRelative P (cwd opt) writeToFileName)
      in (writeToFileName, host3))"

section \<open>The run (lines 132-164)\<close>

text \<open>
  The \<open>for ... of\<close> loop of \<open>codefixProject\<close> over the generator: for each source file
  the generator's body runs, and where it yields, the loop's body runs before the
  generator is resumed. The state is the overlay and the host; a throw ends the run
  with the state reached.
\<close>

fun codefixLoop ::
  "Project \<Rightarrow> PathModule \<Rightarrow> Options \<Rightarrow> string set option \<Rightarrow> SourceFile list \<Rightarrow> Overlay \<Rightarrow> Host
    \<Rightarrow> (error + string) \<times> Overlay \<times> Host" where
  "codefixLoop project P opt files [] allChangedFiles host = (Inr ''Done'', allChangedFiles, host)"
| "codefixLoop project P opt files (f # fs) allChangedFiles host =
     (case genVisit project (readFile allChangedFiles (sysReadFile (ts project))) files f host of
        (None, host') \<Rightarrow> codefixLoop project P opt files fs allChangedFiles host'
      | (Some r, host') \<Rightarrow>
          (let host1 = log host' (''Applying fixes to file: '' @ fixFileName r)
           in case getSourceFile (program project) (fixFileName r) of
                None \<Rightarrow>
                  (Inl (Error (''File '' @ fixFileName r @ '' not found in project'')),
                   allChangedFiles, host1)
              | Some sourceFile \<Rightarrow>
                  (case doTextChanges (text sourceFile) (fixTextChanges r) of
                     Inl e \<Rightarrow> (Inl e, allChangedFiles, host1)
                   | Inr changedFile \<Rightarrow>
                       (let allChangedFiles' = allChangedFiles(fixFileName r \<mapsto>
                              \<lparr>originalText = text sourceFile, newFileText = changedFile\<rparr>);
                            host2 = (if write opt
                                     then snd (writeToFile P (fixFileName r) changedFile opt host1)
                                     else host1)
                        in codefixLoop project P opt files fs allChangedFiles' host2))))"

text \<open>
  \<open>codefixProject\<close>. \<open>fs.existsSync\<close> and the TypeScript API are parameters; the result
  is the returned string or the error thrown, with the overlay and the host at the end.
\<close>

definition codefixProject ::
  "TypeScript \<Rightarrow> PathModule \<Rightarrow> (string \<Rightarrow> bool) \<Rightarrow> Options \<Rightarrow> Host
    \<Rightarrow> (error + string) \<times> Overlay \<times> Host" where
  "codefixProject tsApi P existsSync opt host =
     (case checkOptions P existsSync opt of
        Inl e \<Rightarrow> (Inl e, Map.empty, host)
      | Inr (validFiles, invalidFiles) \<Rightarrow>
          (let host1 = (if length invalidFiles \<noteq> 0
                        then foldl log (log host (getNewLine host @ ''The following file paths are invalid:''))
                               invalidFiles
                        else host)
           in case createProject tsApi P (tsconfig opt) Map.empty of
                Inl e \<Rightarrow> (Inl e, Map.empty, host1)
              | Inr None \<Rightarrow> (Inr ''Error: Could not create project.'', Map.empty, host1)
              | Inr (Some project) \<Rightarrow>
                  (let host2 = log host1 (''Using TypeScript '' @ version (ts project))
                   in codefixLoop project P opt
                        (if length (file opt) > 0 then Some (set validFiles) else None)
                        (getSourceFiles (program project)) Map.empty host2)))"

section \<open>Notions of the specification\<close>

text \<open>
  Edits do not overlap when their half-open spans \<open>[start, start + length)\<close> are
  pairwise disjoint.
\<close>

definition spanEnd :: "TextChange \<Rightarrow> int" where
  "spanEnd c = start (span c) + span_length (span c)"

definition disjointSpans :: "TextChange \<Rightarrow> TextChange \<Rightarrow> bool" where
  "disjointSpans a b = (spanEnd a \<le> start (span b) \<or> spanEnd b \<le> start (span a))"

fun nonOverlapping :: "TextChange list \<Rightarrow> bool" where
  "nonOverlapping [] = True"
| "nonOverlapping (c # cs) = (list_all (disjointSpans c) cs \<and> nonOverlapping cs)"

text \<open>
  Edits are listed in ascending order, from offset \<open>pos\<close> on and within a text of
  length \<open>n\<close>, when each span has a length of at least zero, starts at or after the end
  of the span before it (at or after \<open>pos\<close> for the first) and ends within the text.
\<close>

fun ascendingSpans :: "int \<Rightarrow> int \<Rightarrow> TextChange list \<Rightarrow> bool" where
  "ascendingSpans pos n [] = True"
| "ascendingSpans pos n (c # cs) =
     (pos \<le> start (span c) \<and> 0 \<le> span_length (span c) \<and> spanEnd c \<le> n \<and>
      ascendingSpans (spanEnd c) n cs)"

text \<open>
  The text with every span replaced by its replacement, the spans read in the
  coordinates of the original text \<open>T\<close>: what is left of \<open>T\<close> from \<open>pos\<close> on is copied
  up to the next span, the replacement is put for the span, and so on after it.
\<close>

fun replaceSpans :: "string \<Rightarrow> int \<Rightarrow> TextChange list \<Rightarrow> string" where
  "replaceSpans T pos [] = drop (nat pos) T"
| "replaceSpans T pos (c # cs) =
     take (nat (start (span c) - pos)) (drop (nat pos) T) @ newText c @ replaceSpans T (spanEnd c) cs"

definition edit :: "int \<Rightarrow> int \<Rightarrow> string \<Rightarrow> TextChange" where
  "edit s l r = \<lparr>span = \<lparr>start = s, span_length = l\<rparr>, newText = r\<rparr>"

text \<open>The calls of \<open>writeFile\<close> among the calls made on a host.\<close>

fun isWriteFile :: "HostCall \<Rightarrow> bool" where
  "isWriteFile (WriteFile name content) = True"
| "isWriteFile c = False"

definition writeFileCalls :: "Host \<Rightarrow> HostCall list" where
  "writeFileCalls host = filter isWriteFile (calls host)"

text \<open>
  The requested paths of the options, each put under the directory of the
  configuration file, and the warnings that report the invalid ones.
\<close>

definition requestedPaths :: "PathModule \<Rightarrow> Options \<Rightarrow> string list" where
  "requestedPaths P opt = map (\<lambda>f. pathJoin P [pathDirname P (tsconfig opt), f]) (file opt)"

definition invalidWarnings :: "Host \<Rightarrow> string list \<Rightarrow> HostCall list" where
  "invalidWarnings host invalidFiles =
     (if invalidFiles = [] then []
      else Log (getNewLine host @ ''The following file paths are invalid:'') # map Log invalidFiles)"

text \<open>
  The parts of a file name, cut at every slash and backslash. The first part of an
  absolute name is empty or the drive, and the last part is the file's own name; a file
  is under a directory segment named \<open>node_modules\<close> when one of the parts between
  them is \<open>node_modules\<close>.
\<close>

fun splitSeparators :: "string \<Rightarrow> string list" where
  "splitSeparators [] = [[]]"
| "splitSeparators (c # cs) =
     (if isSeparator c then [] # splitSeparators cs
      else (case splitSeparators cs of seg # segs \<Rightarrow> (c # seg) # segs | [] \<Rightarrow> [[c]]))"

definition underNodeModules :: "string \<Rightarrow> bool" where
  "underNodeModules p = (''node_modules'' \<in> set (butlast (tl (splitSeparators p))))"

text \<open>
  The names of the source files of a program are absolute and end in the file's own
  name, so that neither their first part nor their last part is \<open>node_modules\<close>.
\<close>

definition programFileName :: "string \<Rightarrow> bool" where
  "programFileName p =
     (hd (splitSeparators p) \<noteq> ''node_modules'' \<and> last (splitSeparators p) \<noteq> ''node_modules'')"

text \<open>
  Absolute POSIX paths in normal form: a slash, then segments with a slash between
  them, where a segment is not empty, holds no slash and is neither \<open>.\<close> nor \<open>..\<close>. A
  path is plain when each of its parts between slashes is empty or such a segment.
\<close>

definition cleanSegment :: "string \<Rightarrow> bool" where
  "cleanSegment seg = (seg \<noteq> [] \<and> seg \<noteq> ''.'' \<and> seg \<noteq> ''..'' \<and> CHR ''/'' \<notin> set seg)"

definition absolutePath :: "string list \<Rightarrow> string" where
  "absolutePath segs = ''/'' @ joinSlash segs"

definition plainPath :: "string \<Rightarrow> bool" where
  "plainPath p = list_all (\<lambda>seg. seg = [] \<or> cleanSegment seg) (splitSlash p)"

text \<open>
  The project whose language service finds the text \<open>t\<close> at the path \<open>p\<close>, whatever
  the reader it is given returns there: a run is the same for this project exactly when
  every read of \<open>p\<close> that the language service makes in the run returns \<open>t\<close>.
\<close>

definition forceRead :: "Project \<Rightarrow> string \<Rightarrow> string \<Rightarrow> Project" where
  "forceRead project p t =
     project\<lparr>languageService := (languageService project)
       \<lparr>getCombinedCodeFix := (\<lambda>rd. getCombinedCodeFix (languageService project) (rd(p \<mapsto> t)))\<rparr>\<rparr>"

section \<open>A small project to run the model on\<close>

text \<open>
  Four source files: one under \<open>node_modules\<close>, one declaration file, and two ordinary
  ones. The language service offers two candidate changes for every file but
  \<open>b.ts\<close>, for which it offers none.
\<close>

definition demoA :: SourceFile where
  "demoA = \<lparr>fileName = ''/proj/src/a.ts'', isDeclarationFile = False, text = ''abcdefgh''\<rparr>"

definition demoB :: SourceFile where
  "demoB = \<lparr>fileName = ''/proj/src/b.ts'', isDeclarationFile = False, text = ''export {}''\<rparr>"

definition demoD :: SourceFile where
  "demoD = \<lparr>fileName = ''/proj/src/types.d.ts'', isDeclarationFile = True, text = ''abcdefgh''\<rparr>"

definition demoN :: SourceFile where
  "demoN = \<lparr>fileName = ''/proj/node_modules/lib/index.ts'', isDeclarationFile = False,
             text = ''abcdefgh''\<rparr>"

definition demoProgram :: Program where
  "demoProgram =
     \<lparr>getSourceFiles = [demoN, demoD, demoA, demoB],
      getSourceFile = (\<lambda>name. find (\<lambda>f. fileName f = name) [demoN, demoD, demoA, demoB])\<rparr>"

definition demoService :: LanguageService where
  "demoService =
     \<lparr>getProgram = Some demoProgram,
      getCombinedCodeFix = (\<lambda>rd name.
        if name = ''/proj/src/b.ts'' then []
        else [\<lparr>changeFileName = name, textChanges = [edit 0 1 ''ZZ'', edit 5 0 ''-'']\<rparr>,
              \<lparr>changeFileName = name, textChanges = [edit 0 0 ''//'']\<rparr>])\<rparr>"

definition demoTs :: TypeScript where
  "demoTs =
     \<lparr>version = ''5.4.5'',
      sysReadFile = (\<lambda>p. map_option text (find (\<lambda>f. fileName f = p) [demoN, demoD, demoA, demoB])),
      getParsedCommandLineOfConfigFile =
        (\<lambda>p rd. Inr (Some (map fileName [demoN, demoD, demoA, demoB]))),
      createLanguageService = (\<lambda>commandLine. demoService)\<rparr>"

definition demoProject :: Project where
  "demoProject = \<lparr>ts = demoTs, languageService = demoService, program = demoProgram\<rparr>"

definition demoOptions :: Options where
  "demoOptions =
     \<lparr>cwd = ''/proj'', tsconfig = ''/proj/tsconfig.json'', outputFolder = ''/proj/out'',
      file = [''src/a.ts'', ''missing.ts''], write = False\<rparr>"

text \<open>A host with no call made yet; a directory exists once \<open>mkdir\<close> has made it.\<close>

definition demoHost :: Host where
  "demoHost =
     \<lparr>calls = [], existsAnswer = (\<lambda>made name. Mkdir name \<in> set made),
      getNewLine = [CHR 0x0D, CHR 0x0A]\<rparr>"

text \<open>On the disk of the example only \<open>a.ts\<close> is found by \<open>fs.existsSync\<close>.\<close>

definition demoExists :: "string \<Rightarrow> bool" where
  "demoExists p = (p = ''/proj/src/a.ts'')"

text \<open>
  A second language service, whose fix for \<open>b.ts\<close> inserts the text that it reads
  at \<open>a.ts\<close> through its reader, and which offers one candidate change for every
  other file.
\<close>

definition demoReadingService :: LanguageService where
  "demoReadingService =
     \<lparr>getProgram = Some demoProgram,
      getCombinedCodeFix = (\<lambda>rd name.
        if name = ''/proj/src/b.ts''
        then (case rd ''/proj/src/a.ts'' of
                None \<Rightarrow> []
              | Some t \<Rightarrow> [\<lparr>changeFileName = name, textChanges = [edit 0 0 t]\<rparr>])
        else [\<lparr>changeFileName = name, textChanges = [edit 0 1 ''ZZ'', edit 5 0 ''-'']\<rparr>])\<rparr>"

definition demoReadingProject :: Project where
  "demoReadingProject = \<lparr>ts = demoTs, languageService = demoReadingService, program = demoProgram\<rparr>"

section \<open>The patch applier\<close>

lemma substring_prefix: "substring s 0 (Some e) = take (nat e) s"
  by (cases "e \<le> int (length s)") (auto simp: substring_def clampIndex_def Let_def min_def max_def)

lemma substring_suffix: "substring s b None = drop (nat b) s"
  by (auto simp: substring_def clampIndex_def Let_def min_def max_def)

lemma doTextChangeOnString_eq:
  "doTextChangeOnString t c =
     take (nat (start (span c))) t @ newText c @ drop (nat (spanEnd c)) t"
  by (simp add: doTextChangeOnString_def substring_prefix substring_suffix spanEnd_def)

lemma doTextChangesLoop_foldr:
  "k \<le> length cs \<Longrightarrow>
   doTextChangesLoop cs (int k - 1) t = Inr (foldr (\<lambda>c t. doTextChangeOnString t c) (take k cs) t)"
proof (induction k arbitrary: t)
  case 0
  show ?case by (simp add: doTextChangesLoop.simps)
next
  case (Suc k)
  then have k: "k < length cs" by simp
  have "doTextChangesLoop cs (int (Suc k) - 1) t =
        doTextChangesLoop cs (int k - 1) (doTextChangeOnString t (cs ! k))"
    using k by (subst doTextChangesLoop.simps) (simp add: index_def)
  also have "\<dots> = Inr (foldr (\<lambda>c t. doTextChangeOnString t c) (take k cs) (doTextChangeOnString t (cs ! k)))"
    using Suc.IH k by simp
  also have "\<dots> = Inr (foldr (\<lambda>c t. doTextChangeOnString t c) (take (Suc k) cs) t)"
    using k by (simp add: take_Suc_conv_app_nth)
  finally show ?case .
qed

lemma doTextChanges_foldr:
  "doTextChanges t cs = Inr (foldr (\<lambda>c t. doTextChangeOnString t c) cs t)"
  using doTextChangesLoop_foldr [of "length cs" cs t] by (simp add: doTextChanges_def)

lemma ascendingSpans_sorted:
  "ascendingSpans pos n cs \<Longrightarrow>
   sorted (map (\<lambda>c. start (span c)) cs) \<and> (\<forall>c \<in> set cs. pos \<le> start (span c))"
proof (induction cs arbitrary: pos)
  case Nil
  show ?case by simp
next
  case (Cons c cs)
  then have c: "pos \<le> start (span c)" "start (span c) \<le> spanEnd c"
    and rest: "ascendingSpans (spanEnd c) n cs"
    by (simp_all add: spanEnd_def)
  from Cons.IH [OF rest] have s: "sorted (map (\<lambda>c. start (span c)) cs)"
    and l: "\<forall>d \<in> set cs. spanEnd c \<le> start (span d)"
    by simp_all
  from l c have "\<forall>d \<in> set cs. start (span c) \<le> start (span d) \<and> pos \<le> start (span d)"
    by fastforce
  with s c show ?case by simp
qed

lemma ascendingSpans_disjoint:
  "ascendingSpans pos n cs \<Longrightarrow> spanEnd c \<le> pos \<Longrightarrow> list_all (disjointSpans c) cs"
proof (induction cs arbitrary: pos)
  case Nil
  show ?case by simp
next
  case (Cons d cs)
  from Cons.prems have d: "pos \<le> start (span d)" "0 \<le> span_length (span d)"
    and rest: "ascendingSpans (spanEnd d) n cs" by simp_all
  from d Cons.prems(2) have "spanEnd c \<le> spanEnd d" by (simp add: spanEnd_def)
  with rest Cons.IH have "list_all (disjointSpans c) cs" by blast
  moreover from d Cons.prems(2) have "disjointSpans c d" by (simp add: disjointSpans_def)
  ultimately show ?case by simp
qed

lemma ascendingSpans_nonOverlapping: "ascendingSpans pos n cs \<Longrightarrow> nonOverlapping cs"
proof (induction cs arbitrary: pos)
  case Nil
  show ?case by simp
next
  case (Cons c cs)
  then have rest: "ascendingSpans (spanEnd c) n cs" by simp
  from ascendingSpans_disjoint [OF rest] have "list_all (disjointSpans c) cs" by simp
  with Cons.IH [OF rest] show ?case by simp
qed

lemma foldr_replaceSpans:
  "ascendingSpans pos (int (length T)) cs \<Longrightarrow> 0 \<le> pos \<Longrightarrow> pos \<le> int (length T) \<Longrightarrow>
   foldr (\<lambda>c t. doTextChangeOnString t c) cs T = take (nat pos) T @ replaceSpans T pos cs"
proof (induction cs arbitrary: pos)
  case Nil
  show ?case by simp
next
  case (Cons c cs)
  let ?s = "start (span c)" and ?e = "spanEnd c"
  from Cons.prems have bounds: "pos \<le> ?s" "?s \<le> ?e" "?e \<le> int (length T)"
    and rest: "ascendingSpans ?e (int (length T)) cs"
    by (simp_all add: spanEnd_def)
  from bounds Cons.prems(2) have e0: "0 \<le> ?e" by simp
  let ?X = "foldr (\<lambda>c t. doTextChangeOnString t c) cs T"
  have X: "?X = take (nat ?e) T @ replaceSpans T ?e cs"
    using Cons.IH [OF rest e0 bounds(3)] .
  have len: "length (take (nat ?e) T) = nat ?e"
    using bounds(3) e0 by simp
  have "nat ?s \<le> nat ?e" "nat ?e \<le> length T"
    using bounds Cons.prems(2) by simp_all
  then have pre: "take (nat ?s) ?X = take (nat ?s) T"
    by (simp add: X min_def)
  have suf: "drop (nat ?e) ?X = replaceSpans T ?e cs"
    using len by (simp add: X)
  have glue: "take (nat pos) T @ take (nat (?s - pos)) (drop (nat pos) T) = take (nat ?s) T"
  proof -
    have "nat ?s = nat pos + nat (?s - pos)"
      using bounds(1) Cons.prems(2) by simp
    then show ?thesis by (simp add: take_add)
  qed
  have "foldr (\<lambda>c t. doTextChangeOnString t c) (c # cs) T = doTextChangeOnString ?X c"
    by simp
  also have "\<dots> = take (nat ?s) ?X @ newText c @ drop (nat ?e) ?X"
    by (rule doTextChangeOnString_eq)
  also have "\<dots> = take (nat ?s) T @ newText c @ replaceSpans T ?e cs"
    by (simp only: pre suf)
  also have "\<dots> = take (nat pos) T @ replaceSpans T pos (c # cs)"
    using glue by (simp del: append_assoc add: append_assoc [symmetric])
  finally show ?case .
qed

text \<open>
  Claim C1, as amended. \<open>doTextChanges\<close> applies the edits from the last element of the
  list to the first and does not sort them. For every text \<open>T\<close> and every list \<open>E\<close> of
  edits within \<open>T\<close> that is presented in ascending order of span start, each span
  starting at or after the end of the one before it, the edits do not overlap, the
  starts ascend along the list, so that the loop meets them in descending order, and
  the result is \<open>T\<close> with every span replaced by its replacement, the spans read in
  the coordinates of \<open>T\<close>.
\<close>

theorem doTextChanges_ascending:
  assumes "ascendingSpans 0 (int (length T)) E"
  shows "nonOverlapping E \<and> sorted (map (\<lambda>c. start (span c)) E) \<and>
         doTextChanges T E = Inr (replaceSpans T 0 E)"
proof (intro conjI)
  show "nonOverlapping E"
    using assms by (rule ascendingSpans_nonOverlapping)
next
  show "sorted (map (\<lambda>c. start (span c)) E)"
    using ascendingSpans_sorted [OF assms] by simp
next
  have "foldr (\<lambda>c t. doTextChangeOnString t c) E T = take (nat 0) T @ replaceSpans T 0 E"
    using assms by (rule foldr_replaceSpans) simp_all
  then show "doTextChanges T E = Inr (replaceSpans T 0 E)"
    by (simp add: doTextChanges_foldr)
qed

theorem doTextChanges_ascending_witness:
  "ascendingSpans 0 (int (length ''abcdefgh'')) [edit 0 1 ''ZZ'', edit 5 0 ''-''] \<and>
   nonOverlapping [edit 0 1 ''ZZ'', edit 5 0 ''-''] \<and>
   doTextChanges ''abcdefgh'' [edit 0 1 ''ZZ'', edit 5 0 ''-''] = Inr ''ZZbcde-fgh''"
proof -
  have h: "ascendingSpans 0 (int (length ''abcdefgh'')) [edit 0 1 ''ZZ'', edit 5 0 ''-'']"
    by (simp add: edit_def spanEnd_def)
  have "replaceSpans ''abcdefgh'' 0 [edit 0 1 ''ZZ'', edit 5 0 ''-''] = ''ZZbcde-fgh''"
    by (simp add: edit_def spanEnd_def)
  with doTextChanges_ascending [OF h] h show ?thesis by simp
qed

text \<open>
  Claim C1 as stated fails: the two edits below do not overlap and lie within the
  text, the two lists are permutations of each other, and the results differ.
\<close>

theorem doTextChanges_order_counterexample:
  "nonOverlapping [edit 0 1 ''ZZ'', edit 5 0 ''-''] \<and>
   mset [edit 5 0 ''-'', edit 0 1 ''ZZ''] = mset [edit 0 1 ''ZZ'', edit 5 0 ''-''] \<and>
   doTextChanges ''abcdefgh'' [edit 0 1 ''ZZ'', edit 5 0 ''-''] = Inr ''ZZbcde-fgh'' \<and>
   doTextChanges ''abcdefgh'' [edit 5 0 ''-'', edit 0 1 ''ZZ''] = Inr ''ZZbcd-efgh'' \<and>
   doTextChanges ''abcdefgh'' [edit 0 1 ''ZZ'', edit 5 0 ''-'']
     \<noteq> doTextChanges ''abcdefgh'' [edit 5 0 ''-'', edit 0 1 ''ZZ'']"
proof -
  have a: "nonOverlapping [edit 0 1 ''ZZ'', edit 5 0 ''-'']"
    by (simp add: edit_def spanEnd_def disjointSpans_def)
  have b: "mset [edit 5 0 ''-'', edit 0 1 ''ZZ''] = mset [edit 0 1 ''ZZ'', edit 5 0 ''-'']"
    by (simp add: add_mset_commute)
  have c: "doTextChanges ''abcdefgh'' [edit 0 1 ''ZZ'', edit 5 0 ''-''] = Inr ''ZZbcde-fgh''"
    by (simp add: doTextChanges_foldr doTextChangeOnString_eq edit_def spanEnd_def)
  have d: "doTextChanges ''abcdefgh'' [edit 5 0 ''-'', edit 0 1 ''ZZ''] = Inr ''ZZbcd-efgh''"
    by (simp add: doTextChanges_foldr doTextChangeOnString_eq edit_def spanEnd_def)
  from a b c d show ?thesis by simp
qed

text \<open>
  Claim C4, as amended. The single edit \<open>{start:5, length:3, replacement:"XYZ"}\<close>
  applied to \<open>"abcdefgh"\<close> replaces the three characters \<open>fgh\<close>: the result is
  \<open>"abcdeXYZ"\<close>.
\<close>

theorem doTextChanges_single_edit:
  "doTextChanges ''abcdefgh'' [edit 5 3 ''XYZ''] = Inr ''abcdeXYZ''"
  by (simp add: doTextChanges_def doTextChangesLoop.simps index_def doTextChangeOnString_def
      substring_def clampIndex_def edit_def)

text \<open>Claim C4 as stated fails: the result is not \<open>"abcdeXYZfgh"\<close>.\<close>

theorem doTextChanges_single_edit_counterexample:
  "doTextChanges ''abcdefgh'' [edit 5 3 ''XYZ''] \<noteq> Inr ''abcdeXYZfgh''"
  by (simp add: doTextChanges_def doTextChangesLoop.simps index_def doTextChangeOnString_def
      substring_def clampIndex_def edit_def)

text \<open>
  Claim C5, as amended. The two edits \<open>{start:0, length:1, replacement:"Z"}\<close> and
  \<open>{start:5, length:0, replacement:"-"}\<close> applied to \<open>"abcdefgh"\<close> yield
  \<open>"Zbcde-fgh"\<close> (the first edit replaces the character \<open>a\<close>), in either order of the
  two edits in the list.
\<close>

theorem doTextChanges_two_edits:
  "doTextChanges ''abcdefgh'' [edit 0 1 ''Z'', edit 5 0 ''-''] = Inr ''Zbcde-fgh'' \<and>
   doTextChanges ''abcdefgh'' [edit 5 0 ''-'', edit 0 1 ''Z''] = Inr ''Zbcde-fgh''"
  by (simp add: doTextChanges_def doTextChangesLoop.simps index_def doTextChangeOnString_def
      substring_def clampIndex_def edit_def)

text \<open>Claim C5 as stated fails: in neither order is the result \<open>"Zabcde-fgh"\<close>.\<close>

theorem doTextChanges_two_edits_counterexample:
  "doTextChanges ''abcdefgh'' [edit 0 1 ''Z'', edit 5 0 ''-''] \<noteq> Inr ''Zabcde-fgh'' \<and>
   doTextChanges ''abcdefgh'' [edit 5 0 ''-'', edit 0 1 ''Z''] \<noteq> Inr ''Zabcde-fgh''"
  by (simp add: doTextChanges_def doTextChangesLoop.simps index_def doTextChangeOnString_def
      substring_def clampIndex_def edit_def)

text \<open>
  Claim C10. The patch applier is total: for every text and every list of edits,
  whatever their spans (negative, beyond the end of the text, overlapping),
  \<open>doTextChanges\<close> returns a string and throws nothing. The loop reads only indices of
  the list, and \<open>substring\<close> clamps its indices, so that each edit keeps the first
  \<open>start\<close> characters of the current text (none for a negative start, all of them for
  one beyond the end) and those from \<open>start + length\<close> on.
\<close>

theorem doTextChanges_total:
  "doTextChanges T E =
     Inr (foldr (\<lambda>c t. take (nat (start (span c))) t @ newText c
                        @ drop (nat (start (span c) + span_length (span c))) t) E T)"
  by (simp add: doTextChanges_foldr doTextChangeOnString_eq spanEnd_def)

section \<open>The host's calls during a run\<close>

lemma writeFileCalls_log: "writeFileCalls (log host s) = writeFileCalls host"
  by (simp add: writeFileCalls_def log_def)

lemma writeFileCalls_foldl_log: "writeFileCalls (foldl log host xs) = writeFileCalls host"
  by (induction xs arbitrary: host) (simp_all add: writeFileCalls_log)

lemma genVisit_writeFileCalls:
  "writeFileCalls (snd (genVisit project rd files f host)) = writeFileCalls host"
  by (simp add: genVisit_def Let_def writeFileCalls_log)

lemma genVisit_result:
  "fst (genVisit project rd files f host) = fst (genVisit project rd files f host')"
  by (simp add: genVisit_def Let_def)

lemma codefixLoop_writeFileCalls:
  "\<not> write opt \<Longrightarrow>
   writeFileCalls (snd (snd (codefixLoop project P opt files fs ov host))) = writeFileCalls host"
proof (induction fs arbitrary: ov host)
  case Nil
  then show ?case by simp
next
  case (Cons f fs)
  let ?rd = "readFile ov (sysReadFile (ts project))"
  obtain y host' where g: "genVisit project ?rd files f host = (y, host')"
    by (cases "genVisit project ?rd files f host")
  have e: "writeFileCalls host' = writeFileCalls host"
    using genVisit_writeFileCalls [of project ?rd files f host] g by simp
  show ?case
  proof (cases y)
    case None
    with g e Cons show ?thesis by simp
  next
    case (Some r)
    show ?thesis
      using g Some e Cons.IH [OF Cons.prems(1)] Cons.prems(1)
      by (simp add: Let_def writeFileCalls_log split: option.split sum.split)
  qed
qed

lemma codefixLoop_result:
  "fst (codefixLoop project P opt files fs ov host)
     = fst (codefixLoop project P opt' files fs ov host') \<and>
   fst (snd (codefixLoop project P opt files fs ov host))
     = fst (snd (codefixLoop project P opt' files fs ov host'))"
proof (induction fs arbitrary: ov host host')
  case Nil
  then show ?case by simp
next
  case (Cons f fs)
  let ?rd = "readFile ov (sysReadFile (ts project))"
  obtain y h1 where g: "genVisit project ?rd files f host = (y, h1)"
    by (cases "genVisit project ?rd files f host")
  obtain y' h1' where g': "genVisit project ?rd files f host' = (y', h1')"
    by (cases "genVisit project ?rd files f host'")
  have yy: "y' = y"
    using genVisit_result [of project ?rd files f host host'] g g' by simp
  show ?case
    using g g' yy Cons.IH
    by (simp add: Let_def split: option.split sum.split)
qed

lemma codefixProject_writeFileCalls:
  "\<not> write opt \<Longrightarrow>
   writeFileCalls (snd (snd (codefixProject tsApi P existsSync opt host))) = writeFileCalls host"
  by (simp add: codefixProject_def Let_def codefixLoop_writeFileCalls writeFileCalls_log
      writeFileCalls_foldl_log split: sum.split option.split prod.split)

lemma codefixProject_result:
  "fst (codefixProject tsApi P existsSync (opt\<lparr>write := w\<rparr>) host)
     = fst (codefixProject tsApi P existsSync opt host) \<and>
   fst (snd (codefixProject tsApi P existsSync (opt\<lparr>write := w\<rparr>) host))
     = fst (snd (codefixProject tsApi P existsSync opt host))"
proof -
  have c: "checkOptions P existsSync (opt\<lparr>write := w\<rparr>) = checkOptions P existsSync opt"
    by (simp add: checkOptions_def)
  show ?thesis
  proof (cases "checkOptions P existsSync opt")
    case (Inl e)
    with c show ?thesis by (simp add: codefixProject_def)
  next
    case (Inr vi)
    obtain v i where vi: "vi = (v, i)" by (cases vi)
    show ?thesis
    proof (cases "createProject tsApi P (tsconfig opt) Map.empty")
      case (Inl e)
      with Inr vi c show ?thesis by (simp add: codefixProject_def Let_def)
    next
      case pr: (Inr po)
      show ?thesis
      proof (cases po)
        case None
        with Inr vi c pr show ?thesis by (simp add: codefixProject_def Let_def)
      next
        case (Some project)
        with Inr vi c pr show ?thesis
          using codefixLoop_result [where opt = "opt\<lparr>write := w\<rparr>" and opt' = opt]
          by (simp add: codefixProject_def Let_def)
      qed
    qed
  qed
qed

text \<open>
  Claim C9. In every run with the write flag disabled, \<open>writeFile\<close> of the host is
  never called, however many files received fixes: the calls of \<open>writeFile\<close> on the
  host after the run are those made before it. The outcome of the run and the overlay
  are those of the run with the flag enabled, so the new texts are in the overlay.
\<close>

theorem dry_run_no_writeFile:
  assumes "\<not> write opt"
  shows "writeFileCalls (snd (snd (codefixProject tsApi P existsSync opt host))) = writeFileCalls host \<and>
         fst (codefixProject tsApi P existsSync opt host)
           = fst (codefixProject tsApi P existsSync (opt\<lparr>write := True\<rparr>) host) \<and>
         fst (snd (codefixProject tsApi P existsSync opt host))
           = fst (snd (codefixProject tsApi P existsSync (opt\<lparr>write := True\<rparr>) host))"
  using assms codefixProject_writeFileCalls [of opt tsApi P existsSync host]
    codefixProject_result [where w = True and opt = opt and host = host and tsApi = tsApi]
  by simp

theorem dry_run_no_writeFile_witness:
  "\<not> write demoOptions \<and>
   writeFileCalls (snd (snd (codefixProject demoTs (posix ''/proj'') demoExists demoOptions demoHost))) = [] \<and>
   map_option newFileText
     (fst (snd (codefixProject demoTs (posix ''/proj'') demoExists demoOptions demoHost)) ''/proj/src/a.ts'')
     = Some ''ZZbcde-fgh'' \<and>
   writeFileCalls (snd (snd (codefixProject demoTs (posix ''/proj'') demoExists
       (demoOptions\<lparr>write := True\<rparr>) demoHost)))
     = [WriteFile ''/proj/out/src/a.ts'' ''ZZbcde-fgh'']"
proof -
  have h: "\<not> write demoOptions"
    by (simp add: demoOptions_def)
  have e: "writeFileCalls demoHost = []"
    by (simp add: writeFileCalls_def demoHost_def)
  have ov: "map_option newFileText
     (fst (snd (codefixProject demoTs (posix ''/proj'') demoExists demoOptions demoHost)) ''/proj/src/a.ts'')
     = Some ''ZZbcde-fgh''"
    by code_simp
  have w: "writeFileCalls (snd (snd (codefixProject demoTs (posix ''/proj'') demoExists
       (demoOptions\<lparr>write := True\<rparr>) demoHost)))
     = [WriteFile ''/proj/out/src/a.ts'' ''ZZbcde-fgh'']"
    by code_simp
  from dry_run_no_writeFile [OF h, of demoTs "posix ''/proj''" demoExists demoHost] h e ov w
  show ?thesis by simp
qed

section \<open>The overlay-aware reader\<close>

lemma codefixLoop_dom:
  "p \<in> dom ov \<Longrightarrow> p \<in> dom (fst (snd (codefixLoop project P opt files fs ov host)))"
proof (induction fs arbitrary: ov host)
  case Nil
  then show ?case by simp
next
  case (Cons f fs)
  let ?rd = "readFile ov (sysReadFile (ts project))"
  obtain y host' where g: "genVisit project ?rd files f host = (y, host')"
    by (cases "genVisit project ?rd files f host")
  show ?case
  proof (cases y)
    case None
    with g Cons show ?thesis by simp
  next
    case (Some r)
    have "p \<in> dom (ov(fixFileName r \<mapsto> cf))" for cf
      using Cons.prems by simp
    then show ?thesis
      using g Some Cons.prems Cons.IH
      by (simp add: Let_def split: option.split sum.split)
  qed
qed

lemma genVisit_fixFileName:
  "genVisit project rd files f host = (Some r, host') \<Longrightarrow> fixFileName r = fileName f"
  by (auto simp: genVisit_def Let_def split: if_splits)

lemma codefixLoop_yield:
  assumes "genVisit project (readFile ov (sysReadFile (ts project))) files f host = (Some r, host')"
    and "getSourceFile (program project) (fixFileName r) = Some sf"
    and "doTextChanges (text sf) (fixTextChanges r) = Inr changed"
  shows "codefixLoop project P opt files (f # fs) ov host =
     codefixLoop project P opt files fs
       (ov(fileName f \<mapsto> \<lparr>originalText = text sf, newFileText = changed\<rparr>))
       (if write opt
        then snd (writeToFile P (fileName f) changed opt
               (log host' (''Applying fixes to file: '' @ fileName f)))
        else log host' (''Applying fixes to file: '' @ fileName f))"
  using assms genVisit_fixFileName [OF assms(1)] by (simp add: Let_def)

lemma codefixLoop_keeps:
  "ov p = Some cf \<Longrightarrow> p \<notin> set (map fileName fs) \<Longrightarrow>
   fst (snd (codefixLoop project P opt files fs ov host)) p = Some cf"
proof (induction fs arbitrary: ov host)
  case Nil
  then show ?case by simp
next
  case (Cons f fs)
  let ?rd = "readFile ov (sysReadFile (ts project))"
  from Cons.prems have pf: "p \<noteq> fileName f" and rest: "p \<notin> set (map fileName fs)" by auto
  obtain y host' where g: "genVisit project ?rd files f host = (y, host')"
    by (cases "genVisit project ?rd files f host")
  show ?case
  proof (cases y)
    case None
    have "fst (snd (codefixLoop project P opt files fs ov host')) p = Some cf"
      by (rule Cons.IH) (use Cons.prems(1) rest in simp_all)
    with g None show ?thesis by simp
  next
    case (Some r)
    with g have n: "fixFileName r = fileName f" by (simp add: genVisit_fixFileName)
    have "fst (snd (codefixLoop project P opt files fs (ov(fixFileName r \<mapsto> e)) h)) p = Some cf"
      for e h
      by (rule Cons.IH) (use Cons.prems(1) pf n rest in simp_all)
    then show ?thesis
      using g Some Cons.prems(1)
      by (simp add: Let_def split: option.split sum.split)
  qed
qed

lemma readFile_forced:
  "ov p = Some cf \<Longrightarrow> (readFile ov sys)(p \<mapsto> newFileText cf) = readFile ov sys"
  by (rule ext) (simp add: readFile_def)

lemma genVisit_forceRead:
  "genVisit (forceRead project p t) rd files f host = genVisit project (rd(p \<mapsto> t)) files f host"
  by (simp add: genVisit_def forceRead_def)

lemma codefixLoop_forceRead:
  "ov p = Some cf \<Longrightarrow> p \<notin> set (map fileName fs) \<Longrightarrow>
   codefixLoop (forceRead project p (newFileText cf)) P opt files fs ov host
     = codefixLoop project P opt files fs ov host"
proof (induction fs arbitrary: ov host)
  case Nil
  then show ?case by simp
next
  case (Cons f fs)
  let ?rd = "readFile ov (sysReadFile (ts project))"
  let ?fp = "forceRead project p (newFileText cf)"
  from Cons.prems have pf: "p \<noteq> fileName f" and rest: "p \<notin> set (map fileName fs)" by auto
  have same: "ts ?fp = ts project" "program ?fp = program project"
    by (simp_all add: forceRead_def)
  have v: "genVisit ?fp (readFile ov (sysReadFile (ts ?fp))) files f host = genVisit project ?rd files f host"
    by (simp only: genVisit_forceRead same readFile_forced [where ov = ov and p = p, OF Cons.prems(1)])
  obtain y host' where g: "genVisit project ?rd files f host = (y, host')"
    by (cases "genVisit project ?rd files f host")
  show ?case
  proof (cases y)
    case None
    have "codefixLoop ?fp P opt files fs ov host' = codefixLoop project P opt files fs ov host'"
      by (rule Cons.IH) (use Cons.prems(1) rest in simp_all)
    with g v None show ?thesis by (simp add: same)
  next
    case (Some r)
    with g have n: "fixFileName r = fileName f" by (simp add: genVisit_fixFileName)
    have "codefixLoop ?fp P opt files fs (ov(fixFileName r \<mapsto> e)) h
        = codefixLoop project P opt files fs (ov(fixFileName r \<mapsto> e)) h" for e h
      by (rule Cons.IH) (use Cons.prems(1) pf n rest in simp_all)
    then show ?thesis
      using g v Some
      by (simp add: Let_def same split: option.split sum.split)
  qed
qed

text \<open>
  Claim C2. For every path \<open>p\<close>, \<open>readFile\<close> returns the \<open>newText\<close> of the overlay's
  entry whenever \<open>p\<close> is a key of the overlay, and otherwise what the read of the real
  file system returns (\<open>None\<close> for \<open>undefined\<close>). In the run: when the visit of a source
  file yields a fix and the patch applier returns the new text, the loop goes on with
  the overlay that holds the new text for that file, and a read of the file on that
  overlay returns the new text. From then on, as long as no later source file has the
  same name, the entry stays as it is to the end of the run, a read of the path after
  the run returns the new text, and every read of the path that the language service
  makes in the rest of the run returns the new text: the run is the same when these
  reads are made to return it. In any case the loop never removes a key, so that no
  later read of a recorded path goes to the disk.
\<close>

theorem readFile_overlay:
  "(p \<in> dom ov \<longrightarrow> readFile ov sys p = Some (newFileText (the (ov p)))) \<and>
   (p \<notin> dom ov \<longrightarrow> readFile ov sys p = sys p) \<and>
   readFile (ov(p \<mapsto> \<lparr>originalText = old, newFileText = new\<rparr>)) sys p = Some new \<and>
   (p \<in> dom ov \<longrightarrow> p \<in> dom (fst (snd (codefixLoop project P opt files fs ov host)))) \<and>
   (genVisit project (readFile ov (sysReadFile (ts project))) files f host = (Some r, host') \<and>
    getSourceFile (program project) (fixFileName r) = Some sf \<and>
    doTextChanges (text sf) (fixTextChanges r) = Inr changed \<longrightarrow>
      fixFileName r = fileName f \<and>
      codefixLoop project P opt files (f # fs) ov host =
        codefixLoop project P opt files fs
          (ov(fileName f \<mapsto> \<lparr>originalText = text sf, newFileText = changed\<rparr>))
          (if write opt
           then snd (writeToFile P (fileName f) changed opt
                  (log host' (''Applying fixes to file: '' @ fileName f)))
           else log host' (''Applying fixes to file: '' @ fileName f)) \<and>
      readFile (ov(fileName f \<mapsto> \<lparr>originalText = text sf, newFileText = changed\<rparr>)) sys (fileName f)
        = Some changed) \<and>
   (ov p = Some cf \<and> p \<notin> set (map fileName fs) \<longrightarrow>
      fst (snd (codefixLoop project P opt files fs ov host)) p = Some cf \<and>
      readFile (fst (snd (codefixLoop project P opt files fs ov host))) sys p = Some (newFileText cf) \<and>
      codefixLoop (forceRead project p (newFileText cf)) P opt files fs ov host
        = codefixLoop project P opt files fs ov host)"
proof (intro conjI impI)
  show "readFile ov sys p = Some (newFileText (the (ov p)))" if "p \<in> dom ov"
    using that by (auto simp: readFile_def)
  show "readFile ov sys p = sys p" if "p \<notin> dom ov"
    using that by (auto simp: readFile_def)
  show "readFile (ov(p \<mapsto> \<lparr>originalText = old, newFileText = new\<rparr>)) sys p = Some new"
    by (simp add: readFile_def)
  show "p \<in> dom (fst (snd (codefixLoop project P opt files fs ov host)))" if "p \<in> dom ov"
    using that by (rule codefixLoop_dom)
next
  assume y: "genVisit project (readFile ov (sysReadFile (ts project))) files f host = (Some r, host') \<and>
    getSourceFile (program project) (fixFileName r) = Some sf \<and>
    doTextChanges (text sf) (fixTextChanges r) = Inr changed"
  then have y1: "genVisit project (readFile ov (sysReadFile (ts project))) files f host = (Some r, host')"
    and y2: "getSourceFile (program project) (fixFileName r) = Some sf"
    and y3: "doTextChanges (text sf) (fixTextChanges r) = Inr changed"
    by simp_all
  from y1 show "fixFileName r = fileName f"
    by (rule genVisit_fixFileName)
  from y1 y2 y3 show "codefixLoop project P opt files (f # fs) ov host =
        codefixLoop project P opt files fs
          (ov(fileName f \<mapsto> \<lparr>originalText = text sf, newFileText = changed\<rparr>))
          (if write opt
           then snd (writeToFile P (fileName f) changed opt
                  (log host' (''Applying fixes to file: '' @ fileName f)))
           else log host' (''Applying fixes to file: '' @ fileName f))"
    by (rule codefixLoop_yield)
  show "readFile (ov(fileName f \<mapsto> \<lparr>originalText = text sf, newFileText = changed\<rparr>)) sys (fileName f)
        = Some changed"
    by (simp add: readFile_def)
next
  assume k: "ov p = Some cf \<and> p \<notin> set (map fileName fs)"
  then have a: "ov p = Some cf" and b: "p \<notin> set (map fileName fs)" by simp_all
  show final: "fst (snd (codefixLoop project P opt files fs ov host)) p = Some cf"
    using a b by (rule codefixLoop_keeps)
  then show "readFile (fst (snd (codefixLoop project P opt files fs ov host))) sys p = Some (newFileText cf)"
    by (simp add: readFile_def)
  show "codefixLoop (forceRead project p (newFileText cf)) P opt files fs ov host
        = codefixLoop project P opt files fs ov host"
    using a b by (rule codefixLoop_forceRead)
qed

theorem readFile_overlay_witness:
  "sysReadFile demoTs ''/proj/src/a.ts'' = Some ''abcdefgh'' \<and>
   fst (snd (codefixLoop demoReadingProject (posix ''/proj'') demoOptions None [demoA, demoB]
       Map.empty demoHost)) ''/proj/src/a.ts''
     = Some \<lparr>originalText = ''abcdefgh'', newFileText = ''ZZbcde-fgh''\<rparr> \<and>
   readFile (fst (snd (codefixLoop demoReadingProject (posix ''/proj'') demoOptions None [demoA, demoB]
       Map.empty demoHost))) (sysReadFile demoTs) ''/proj/src/a.ts''
     = Some ''ZZbcde-fgh'' \<and>
   map_option newFileText
     (fst (snd (codefixLoop demoReadingProject (posix ''/proj'') demoOptions None [demoA, demoB]
       Map.empty demoHost)) ''/proj/src/b.ts'')
     = Some ''ZZbcde-fghexport {}'' \<and>
   readFile (fst (snd (codefixLoop demoReadingProject (posix ''/proj'') demoOptions None [demoA, demoB]
       Map.empty demoHost))) (sysReadFile demoTs) ''/proj/src/missing.ts''
     = None"
proof -
  let ?P = "posix ''/proj''"
  let ?a = "''/proj/src/a.ts''"
  let ?sys = "sysReadFile demoTs"
  let ?r = "\<lparr>fixFileName = ?a, fixTextChanges = [edit 0 1 ''ZZ'', edit 5 0 ''-'']\<rparr>"
  let ?h = "snd (genVisit demoReadingProject (readFile Map.empty (sysReadFile (ts demoReadingProject)))
      None demoA demoHost)"
  let ?cf = "\<lparr>originalText = ''abcdefgh'', newFileText = ''ZZbcde-fgh''\<rparr>"
  let ?run = "codefixLoop demoReadingProject ?P demoOptions None [demoA, demoB] Map.empty demoHost"
  have fa: "fileName demoA = ?a" and ta: "text demoA = ''abcdefgh''"
    by (simp_all add: demoA_def)
  have w: "\<not> write demoOptions"
    by (simp add: demoOptions_def)
  have sa: "?sys ?a = Some ''abcdefgh''"
    by code_simp
  have "fst (genVisit demoReadingProject (readFile Map.empty (sysReadFile (ts demoReadingProject))) None
      demoA demoHost) = Some ?r"
    by code_simp
  then have g: "genVisit demoReadingProject (readFile Map.empty (sysReadFile (ts demoReadingProject)))
      None demoA demoHost = (Some ?r, ?h)"
    by (simp add: prod_eq_iff)
  have s: "getSourceFile (program demoReadingProject) (fixFileName ?r) = Some demoA"
    by code_simp
  have d: "doTextChanges (text demoA) (fixTextChanges ?r) = Inr ''ZZbcde-fgh''"
    by code_simp
  from readFile_overlay [where project = demoReadingProject and P = ?P and opt = demoOptions
      and files = None and fs = "[demoB]" and ov = Map.empty and host = demoHost and f = demoA
      and r = ?r and host' = ?h and sf = demoA and changed = "''ZZbcde-fgh''"] g s d
  have step: "?run = codefixLoop demoReadingProject ?P demoOptions None [demoB] [?a \<mapsto> ?cf]
      (log ?h ''Applying fixes to file: /proj/src/a.ts'')"
    by (simp add: fa ta w del: codefixLoop.simps)
  have nb: "?a \<notin> set (map fileName [demoB])"
    by (simp add: demoB_def)
  let ?rest = "codefixLoop demoReadingProject ?P demoOptions None [demoB] [?a \<mapsto> ?cf]
      (log ?h ''Applying fixes to file: /proj/src/a.ts'')"
  from readFile_overlay [where p = ?a and ov = "[?a \<mapsto> ?cf]" and sys = ?sys
      and project = demoReadingProject and P = ?P and opt = demoOptions and files = None
      and fs = "[demoB]" and host = "log ?h ''Applying fixes to file: /proj/src/a.ts''"
      and cf = ?cf] nb
  have "fst (snd ?rest) ?a = Some ?cf"
    and "readFile (fst (snd ?rest)) ?sys ?a = Some ''ZZbcde-fgh''"
    by (simp_all del: codefixLoop.simps)
  then have keep: "fst (snd ?run) ?a = Some ?cf"
    and rd: "readFile (fst (snd ?run)) ?sys ?a = Some ''ZZbcde-fgh''"
    by (simp_all only: step)
  have b: "map_option newFileText (fst (snd ?run) ''/proj/src/b.ts'') = Some ''ZZbcde-fghexport {}''"
    by code_simp
  have m: "readFile (fst (snd ?run)) ?sys ''/proj/src/missing.ts'' = None"
    by code_simp
  from sa keep rd b m show ?thesis by simp
qed

section \<open>Subset validation\<close>

lemma foldl_log: "foldl log host xs = host\<lparr>calls := calls host @ map Log xs\<rparr>"
  by (induction xs arbitrary: host) (simp_all add: log_def)

lemma checkOptions_throws:
  "(\<exists>e. checkOptions P existsSync opt = Inl e) \<longleftrightarrow>
     (file opt \<noteq> [] \<and> (\<forall>p \<in> set (requestedPaths P opt). \<not> existsSync p))"
  by (auto simp: checkOptions_def requestedPaths_def Let_def filter_empty_conv)

lemma checkOptions_all_invalid:
  "file opt \<noteq> [] \<Longrightarrow> \<forall>p \<in> set (requestedPaths P opt). \<not> existsSync p \<Longrightarrow>
   checkOptions P existsSync opt = Inl (Error ''All provided files are invalid'')"
  by (auto simp: checkOptions_def requestedPaths_def Let_def filter_empty_conv)

lemma checkOptions_some_valid:
  "\<exists>p \<in> set (requestedPaths P opt). existsSync p \<Longrightarrow>
   checkOptions P existsSync opt =
     Inr (filter existsSync (requestedPaths P opt), filter (\<lambda>p. \<not> existsSync p) (requestedPaths P opt))"
  by (auto simp: checkOptions_def requestedPaths_def Let_def filter_empty_conv)

lemma warned_host:
  "(if length invalidFiles \<noteq> 0
    then foldl log (log host (getNewLine host @ ''The following file paths are invalid:'')) invalidFiles
    else host) = host\<lparr>calls := calls host @ invalidWarnings host invalidFiles\<rparr>"
  by (simp add: foldl_log invalidWarnings_def log_def)

text \<open>
  Claim C3. \<open>checkOptions\<close> puts each requested path under the directory of the
  configuration file and checks that it exists. It throws if and only if the list of
  requested paths is not empty and none of the paths exists; the run then ends with
  that error before the project is created, with no call made on the host. When at
  least one path exists, \<open>checkOptions\<close> returns the existing paths and the missing
  ones, and the run goes on: the missing ones are logged as a warning, the project is
  created, and the fixes are computed for the existing paths.
\<close>

theorem checkOptions_subset_validation:
  "((\<exists>e. checkOptions P existsSync opt = Inl e) \<longleftrightarrow>
      (file opt \<noteq> [] \<and> (\<forall>p \<in> set (requestedPaths P opt). \<not> existsSync p))) \<and>
   (file opt \<noteq> [] \<and> (\<forall>p \<in> set (requestedPaths P opt). \<not> existsSync p) \<longrightarrow>
      codefixProject tsApi P existsSync opt host =
        (Inl (Error ''All provided files are invalid''), Map.empty, host)) \<and>
   ((\<exists>p \<in> set (requestedPaths P opt). existsSync p) \<longrightarrow>
      checkOptions P existsSync opt =
        Inr (filter existsSync (requestedPaths P opt),
             filter (\<lambda>p. \<not> existsSync p) (requestedPaths P opt)) \<and>
      codefixProject tsApi P existsSync opt host =
        (let host1 = host\<lparr>calls := calls host @
                invalidWarnings host (filter (\<lambda>p. \<not> existsSync p) (requestedPaths P opt))\<rparr>
         in case createProject tsApi P (tsconfig opt) Map.empty of
              Inl e \<Rightarrow> (Inl e, Map.empty, host1)
            | Inr None \<Rightarrow> (Inr ''Error: Could not create project.'', Map.empty, host1)
            | Inr (Some project) \<Rightarrow>
                codefixLoop project P opt (Some (set (filter existsSync (requestedPaths P opt))))
                  (getSourceFiles (program project)) Map.empty
                  (log host1 (''Using TypeScript '' @ version (ts project)))))"
proof (intro conjI impI)
  show "(\<exists>e. checkOptions P existsSync opt = Inl e) \<longleftrightarrow>
      (file opt \<noteq> [] \<and> (\<forall>p \<in> set (requestedPaths P opt). \<not> existsSync p))"
    by (rule checkOptions_throws)
next
  assume "file opt \<noteq> [] \<and> (\<forall>p \<in> set (requestedPaths P opt). \<not> existsSync p)"
  then have "checkOptions P existsSync opt = Inl (Error ''All provided files are invalid'')"
    by (simp add: checkOptions_all_invalid)
  then show "codefixProject tsApi P existsSync opt host =
        (Inl (Error ''All provided files are invalid''), Map.empty, host)"
    by (simp add: codefixProject_def)
next
  assume v: "\<exists>p \<in> set (requestedPaths P opt). existsSync p"
  then show c: "checkOptions P existsSync opt =
        Inr (filter existsSync (requestedPaths P opt),
             filter (\<lambda>p. \<not> existsSync p) (requestedPaths P opt))"
    by (rule checkOptions_some_valid)
  from v have ne: "file opt \<noteq> []"
    by (auto simp: requestedPaths_def)
  show "codefixProject tsApi P existsSync opt host =
        (let host1 = host\<lparr>calls := calls host @
                invalidWarnings host (filter (\<lambda>p. \<not> existsSync p) (requestedPaths P opt))\<rparr>
         in case createProject tsApi P (tsconfig opt) Map.empty of
              Inl e \<Rightarrow> (Inl e, Map.empty, host1)
            | Inr None \<Rightarrow> (Inr ''Error: Could not create project.'', Map.empty, host1)
            | Inr (Some project) \<Rightarrow>
                codefixLoop project P opt (Some (set (filter existsSync (requestedPaths P opt))))
                  (getSourceFiles (program project)) Map.empty
                  (log host1 (''Using TypeScript '' @ version (ts project))))"
    unfolding codefixProject_def c using ne
    by (simp only: sum.case prod.case warned_host Let_def) simp
qed

theorem checkOptions_subset_validation_witness:
  "requestedPaths (posix ''/proj'') demoOptions = [''/proj/src/a.ts'', ''/proj/missing.ts''] \<and>
   checkOptions (posix ''/proj'') demoExists demoOptions
     = Inr ([''/proj/src/a.ts''], [''/proj/missing.ts'']) \<and>
   fst (codefixProject demoTs (posix ''/proj'') demoExists demoOptions demoHost) = Inr ''Done'' \<and>
   calls (snd (snd (codefixProject demoTs (posix ''/proj'') demoExists demoOptions demoHost)))
     = [Log ([CHR 0x0D, CHR 0x0A] @ ''The following file paths are invalid:''),
        Log ''/proj/missing.ts'',
        Log ''Using TypeScript 5.4.5'',
        Log ''Getting codefixes for /proj/src/a.ts'',
        Log ''Multiple fixes found for /proj/src/a.ts'',
        Log ''Applying fixes to file: /proj/src/a.ts''] \<and>
   requestedPaths (posix ''/proj'') (demoOptions\<lparr>file := [''missing1.ts'', ''missing2.ts'']\<rparr>)
     = [''/proj/missing1.ts'', ''/proj/missing2.ts''] \<and>
   codefixProject demoTs (posix ''/proj'') demoExists
       (demoOptions\<lparr>file := [''missing1.ts'', ''missing2.ts'']\<rparr>) demoHost
     = (Inl (Error ''All provided files are invalid''), Map.empty, demoHost)"
proof -
  let ?P = "posix ''/proj''"
  let ?opt2 = "demoOptions\<lparr>file := [''missing1.ts'', ''missing2.ts'']\<rparr>"
  have r1: "requestedPaths ?P demoOptions = [''/proj/src/a.ts'', ''/proj/missing.ts'']"
    by code_simp
  have r2: "requestedPaths ?P ?opt2 = [''/proj/missing1.ts'', ''/proj/missing2.ts'']"
    by code_simp
  have v: "\<exists>p \<in> set (requestedPaths ?P demoOptions). demoExists p"
    by (simp add: r1 demoExists_def)
  have n: "file ?opt2 \<noteq> [] \<and> (\<forall>p \<in> set (requestedPaths ?P ?opt2). \<not> demoExists p)"
    by (simp add: r2 demoExists_def)
  from checkOptions_subset_validation [of ?P demoExists demoOptions demoTs demoHost] v
  have c: "checkOptions ?P demoExists demoOptions = Inr ([''/proj/src/a.ts''], [''/proj/missing.ts''])"
    by (simp add: r1 demoExists_def)
  from checkOptions_subset_validation [of ?P demoExists ?opt2 demoTs demoHost] n
  have a: "codefixProject demoTs ?P demoExists ?opt2 demoHost
     = (Inl (Error ''All provided files are invalid''), Map.empty, demoHost)"
    by blast
  have d: "fst (codefixProject demoTs ?P demoExists demoOptions demoHost) = Inr ''Done''"
    by code_simp
  have l: "calls (snd (snd (codefixProject demoTs ?P demoExists demoOptions demoHost)))
     = [Log ([CHR 0x0D, CHR 0x0A] @ ''The following file paths are invalid:''),
        Log ''/proj/missing.ts'',
        Log ''Using TypeScript 5.4.5'',
        Log ''Getting codefixes for /proj/src/a.ts'',
        Log ''Multiple fixes found for /proj/src/a.ts'',
        Log ''Applying fixes to file: /proj/src/a.ts'']"
    by code_simp
  from r1 c d l r2 a show ?thesis by simp
qed

section \<open>The fix enumerator\<close>

lemma matchesHere_iff:
  "matchesHere s \<longleftrightarrow>
     (\<exists>s1 s2 post. isSeparator s1 \<and> isSeparator s2 \<and> s = s1 # ''node_modules'' @ s2 # post)"
proof
  assume m: "matchesHere s"
  then obtain c cs where s: "s = c # cs" and c: "isSeparator c"
    and t: "take 12 cs = ''node_modules''"
    by (cases s) (auto simp: matchesHere_def)
  from m s obtain d ds where d: "drop 12 cs = d # ds" and sd: "isSeparator d"
    by (cases "drop 12 cs") (auto simp: matchesHere_def)
  have "cs = take 12 cs @ drop 12 cs" by simp
  with t d have "cs = ''node_modules'' @ d # ds" by simp
  with s c sd show "\<exists>s1 s2 post. isSeparator s1 \<and> isSeparator s2 \<and> s = s1 # ''node_modules'' @ s2 # post"
    by blast
next
  assume "\<exists>s1 s2 post. isSeparator s1 \<and> isSeparator s2 \<and> s = s1 # ''node_modules'' @ s2 # post"
  then show "matchesHere s"
    by (auto simp: matchesHere_def)
qed

lemma testNodeModules_iff:
  "testNodeModules p \<longleftrightarrow>
     (\<exists>pre s1 s2 post. isSeparator s1 \<and> isSeparator s2 \<and> p = pre @ s1 # ''node_modules'' @ s2 # post)"
proof (induction p)
  case Nil
  show ?case by simp
next
  case (Cons c cs)
  show ?case
  proof
    assume t: "testNodeModules (c # cs)"
    show "\<exists>pre s1 s2 post. isSeparator s1 \<and> isSeparator s2 \<and> c # cs = pre @ s1 # ''node_modules'' @ s2 # post"
    proof (cases "matchesHere (c # cs)")
      case True
      then obtain s1 s2 post where "isSeparator s1" "isSeparator s2" "c # cs = [] @ s1 # ''node_modules'' @ s2 # post"
        unfolding matchesHere_iff by auto
      then show ?thesis by blast
    next
      case False
      with t have "testNodeModules cs" by simp
      with Cons.IH obtain pre s1 s2 post where "isSeparator s1" "isSeparator s2" "cs = pre @ s1 # ''node_modules'' @ s2 # post"
        by blast
      then have "isSeparator s1 \<and> isSeparator s2 \<and> c # cs = (c # pre) @ s1 # ''node_modules'' @ s2 # post" by simp
      then show ?thesis by blast
    qed
  next
    assume "\<exists>pre s1 s2 post. isSeparator s1 \<and> isSeparator s2 \<and> c # cs = pre @ s1 # ''node_modules'' @ s2 # post"
    then obtain pre s1 s2 post where s: "isSeparator s1" "isSeparator s2"
      and e: "c # cs = pre @ s1 # ''node_modules'' @ s2 # post" by blast
    show "testNodeModules (c # cs)"
    proof (cases pre)
      case Nil
      with s e have "matchesHere (c # cs)" unfolding matchesHere_iff by auto
      then show ?thesis by simp
    next
      case (Cons x pre')
      with e have "cs = pre' @ s1 # ''node_modules'' @ s2 # post" by simp
      with s Cons.IH have "testNodeModules cs" by blast
      then show ?thesis by simp
    qed
  qed
qed

lemma splitSeparators_nonempty: "splitSeparators p \<noteq> []"
  by (induction p) (auto split: list.split)

lemma splitSeparators_append:
  "isSeparator s \<Longrightarrow> splitSeparators (a @ s # b) = splitSeparators a @ splitSeparators b"
proof (induction a)
  case Nil
  then show ?case by simp
next
  case (Cons c a)
  obtain x xs where x: "splitSeparators a = x # xs"
    using splitSeparators_nonempty [of a] by (cases "splitSeparators a") auto
  with Cons show ?case by simp
qed

lemma splitSeparators_node_modules: "splitSeparators ''node_modules'' = [''node_modules'']"
  by (simp add: isSeparator_def)

lemma splitSeparators_second:
  "splitSeparators p = x # y # rest \<Longrightarrow>
   \<exists>s q. isSeparator s \<and> p = x @ s # q \<and> splitSeparators q = y # rest"
proof (induction p arbitrary: x)
  case Nil
  then show ?case by simp
next
  case (Cons c cs)
  show ?case
  proof (cases "isSeparator c")
    case True
    with Cons.prems have "x = []" "splitSeparators cs = y # rest" by simp_all
    with True show ?thesis by auto
  next
    case False
    obtain seg segs where sg: "splitSeparators cs = seg # segs"
      using splitSeparators_nonempty [of cs] by (cases "splitSeparators cs") auto
    with False Cons.prems have x: "x = c # seg" and "segs = y # rest" by simp_all
    with sg have "splitSeparators cs = seg # y # rest" by simp
    from Cons.IH [OF this] obtain s q where "isSeparator s" "cs = seg @ s # q" "splitSeparators q = y # rest"
      by blast
    with x show ?thesis by auto
  qed
qed

lemma inner_segment_delimited:
  "seg \<in> set (butlast (tl (splitSeparators p))) \<Longrightarrow>
   \<exists>pre s1 s2 post. isSeparator s1 \<and> isSeparator s2 \<and> p = pre @ s1 # seg @ s2 # post"
proof (induction p rule: length_induct)
  case (1 p)
  obtain x t where xt: "splitSeparators p = x # t"
    using splitSeparators_nonempty [of p] by (cases "splitSeparators p") auto
  with "1.prems" have in_t: "seg \<in> set (butlast t)" by simp
  then obtain y rest where t: "t = y # rest" by (cases t) auto
  with in_t obtain z rest' where rest: "rest = z # rest'" by (cases rest) auto
  from splitSeparators_second [of p x y rest] xt t
  obtain s q where s: "isSeparator s" and p: "p = x @ s # q" and q: "splitSeparators q = y # rest"
    by auto
  show ?case
  proof (cases "seg = y")
    case True
    from splitSeparators_second [of q y z rest'] q rest
    obtain s' q' where "isSeparator s'" "q = y @ s' # q'" by auto
    with s p True have "isSeparator s \<and> isSeparator s' \<and> p = x @ s # seg @ s' # q'" by simp
    then show ?thesis by blast
  next
    case False
    with in_t t rest have "seg \<in> set (butlast (tl (splitSeparators q)))"
      by (simp add: q)
    moreover have "length q < length p" using p by simp
    ultimately obtain pre s1 s2 post where "isSeparator s1" "isSeparator s2" "q = pre @ s1 # seg @ s2 # post"
      using "1.IH" by blast
    with p have "isSeparator s1 \<and> isSeparator s2 \<and> p = (x @ s # pre) @ s1 # seg @ s2 # post" by simp
    then show ?thesis by blast
  qed
qed

lemma delimited_inner_segment:
  assumes "isSeparator s1" "isSeparator s2" "p = pre @ s1 # ''node_modules'' @ s2 # post"
  shows "underNodeModules p"
proof -
  have "splitSeparators p = splitSeparators pre @ splitSeparators (''node_modules'' @ s2 # post)"
    using assms(1,3) by (simp only: splitSeparators_append)
  also have "\<dots> = splitSeparators pre @ [''node_modules''] @ splitSeparators post"
    using assms(2) by (simp only: splitSeparators_append splitSeparators_node_modules)
  finally have sp: "splitSeparators p = splitSeparators pre @ [''node_modules''] @ splitSeparators post" .
  obtain x xs where x: "splitSeparators pre = x # xs"
    using splitSeparators_nonempty [of pre] by (cases "splitSeparators pre") auto
  obtain y ys where y: "splitSeparators post = y # ys"
    using splitSeparators_nonempty [of post] by (cases "splitSeparators post") auto
  show ?thesis
    unfolding underNodeModules_def sp x y by (simp add: butlast_append)
qed

lemma testNodeModules_underNodeModules: "testNodeModules p \<longleftrightarrow> underNodeModules p"
proof
  assume "testNodeModules p"
  then show "underNodeModules p"
    unfolding testNodeModules_iff using delimited_inner_segment by blast
next
  assume "underNodeModules p"
  then show "testNodeModules p"
    unfolding testNodeModules_iff underNodeModules_def by (rule inner_segment_delimited)
qed

lemma genVisit_skipped:
  "testNodeModules (fileName f) \<or> isDeclarationFile f \<Longrightarrow> genVisit project rd files f host = (None, host)"
  by (auto simp: genVisit_def)

lemma genCodeFixesFromProject_filter:
  "genCodeFixesFromProject project rd files (filter (\<lambda>f. \<not> testNodeModules (fileName f) \<and> \<not> isDeclarationFile f) fs) host
     = genCodeFixesFromProject project rd files fs host"
proof (induction fs arbitrary: host)
  case Nil
  show ?case by simp
next
  case (Cons f fs)
  show ?case
  proof (cases "testNodeModules (fileName f) \<or> isDeclarationFile f")
    case True
    then have "genVisit project rd files f host = (None, host)" by (rule genVisit_skipped)
    with True Cons.IH show ?thesis by auto
  next
    case False
    with Cons.IH show ?thesis by (simp split: prod.split option.split)
  qed
qed

lemma codefixLoop_filter:
  "codefixLoop project P opt files (filter (\<lambda>f. \<not> testNodeModules (fileName f) \<and> \<not> isDeclarationFile f) fs) ov host
     = codefixLoop project P opt files fs ov host"
proof (induction fs arbitrary: ov host)
  case Nil
  show ?case by simp
next
  case (Cons f fs)
  show ?case
  proof (cases "testNodeModules (fileName f) \<or> isDeclarationFile f")
    case True
    then have "genVisit project (readFile ov (sysReadFile (ts project))) files f host = (None, host)"
      by (rule genVisit_skipped)
    with True Cons.IH show ?thesis by auto
  next
    case False
    with Cons.IH show ?thesis by (simp add: Let_def split: prod.split option.split sum.split)
  qed
qed

lemma inner_segments:
  assumes "segs \<noteq> []" "hd segs \<noteq> seg" "last segs \<noteq> seg"
  shows "seg \<in> set segs \<longleftrightarrow> seg \<in> set (butlast (tl segs))"
proof (cases segs)
  case Nil
  with assms show ?thesis by simp
next
  case (Cons x t)
  show ?thesis
  proof (cases t rule: rev_cases)
    case Nil
    with Cons assms show ?thesis by simp
  next
    case (snoc ys y)
    with Cons assms show ?thesis by auto
  qed
qed

lemma segment_underNodeModules:
  "programFileName p \<Longrightarrow>
   ''node_modules'' \<in> set (splitSeparators p) \<longleftrightarrow> underNodeModules p"
  unfolding programFileName_def underNodeModules_def
  using splitSeparators_nonempty [of p] by (intro inner_segments) blast+

text \<open>
  Claim C6. A source file that is under a directory segment named \<open>node_modules\<close>, or
  that is a declaration file, is never yielded by the generator, whatever fixes the
  language service has for it. The test of the code holds exactly for the names with
  such a segment, with slashes and backslashes alike; among the names of a program's
  source files these are the names with a part named \<open>node_modules\<close>. The visit of
  such a file yields nothing and makes no call on the host, whatever the subset of
  files is, since both checks come before the check of the subset; and the generator's
  sequence and the run are those over the source files without these files.
\<close>

theorem skipped_files_never_yielded:
  "(testNodeModules name \<longleftrightarrow> underNodeModules name) \<and>
   (programFileName name \<longrightarrow>
      (''node_modules'' \<in> set (splitSeparators name) \<longleftrightarrow> underNodeModules name)) \<and>
   (underNodeModules (fileName f) \<or> isDeclarationFile f \<longrightarrow>
      genVisit project rd files f host = (None, host)) \<and>
   genCodeFixesFromProject project rd files fs host =
     genCodeFixesFromProject project rd files
       (filter (\<lambda>f. \<not> underNodeModules (fileName f) \<and> \<not> isDeclarationFile f) fs) host \<and>
   codefixLoop project P opt files fs ov host =
     codefixLoop project P opt files
       (filter (\<lambda>f. \<not> underNodeModules (fileName f) \<and> \<not> isDeclarationFile f) fs) ov host"
  using genVisit_skipped [of f project rd files host]
    genCodeFixesFromProject_filter [of project rd files fs host]
    codefixLoop_filter [of project P opt files fs ov host]
    segment_underNodeModules [of name]
  by (simp add: testNodeModules_underNodeModules)

theorem skipped_files_never_yielded_witness:
  "programFileName (fileName demoN) \<and> ''node_modules'' \<in> set (splitSeparators (fileName demoN)) \<and>
   underNodeModules (fileName demoN) \<and> isDeclarationFile demoD \<and>
   getCombinedCodeFix (languageService demoProject) (sysReadFile demoTs) (fileName demoN) \<noteq> [] \<and>
   getCombinedCodeFix (languageService demoProject) (sysReadFile demoTs) (fileName demoD) \<noteq> [] \<and>
   genVisit demoProject (sysReadFile demoTs) (Some {fileName demoN, fileName demoD}) demoN demoHost
     = (None, demoHost) \<and>
   genVisit demoProject (sysReadFile demoTs) (Some {fileName demoN, fileName demoD}) demoD demoHost
     = (None, demoHost) \<and>
   fst (genCodeFixesFromProject demoProject (sysReadFile demoTs) None [demoN, demoD, demoA, demoB] demoHost)
     = [\<lparr>fixFileName = ''/proj/src/a.ts'', fixTextChanges = [edit 0 1 ''ZZ'', edit 5 0 ''-'']\<rparr>]"
proof -
  let ?rd = "sysReadFile demoTs"
  let ?files = "Some {fileName demoN, fileName demoD}"
  have pn: "programFileName (fileName demoN)"
    by code_simp
  have sn: "''node_modules'' \<in> set (splitSeparators (fileName demoN))"
    by code_simp
  from skipped_files_never_yielded [of "fileName demoN"] pn sn
  have n: "underNodeModules (fileName demoN)"
    by blast
  have d: "isDeclarationFile demoD"
    by (simp add: demoD_def)
  have fn: "getCombinedCodeFix (languageService demoProject) ?rd (fileName demoN) \<noteq> []"
    by code_simp
  have fd: "getCombinedCodeFix (languageService demoProject) ?rd (fileName demoD) \<noteq> []"
    by code_simp
  from skipped_files_never_yielded [of "fileName demoN" demoN demoProject ?rd ?files demoHost] n
  have vn: "genVisit demoProject ?rd ?files demoN demoHost = (None, demoHost)"
    by simp
  from skipped_files_never_yielded [of "fileName demoD" demoD demoProject ?rd ?files demoHost] d
  have vd: "genVisit demoProject ?rd ?files demoD demoHost = (None, demoHost)"
    by simp
  have s: "fst (genCodeFixesFromProject demoProject ?rd None [demoN, demoD, demoA, demoB] demoHost)
     = [\<lparr>fixFileName = ''/proj/src/a.ts'', fixTextChanges = [edit 0 1 ''ZZ'', edit 5 0 ''-'']\<rparr>]"
    by code_simp
  from pn sn n d fn fd vn vd s show ?thesis by simp
qed

text \<open>
  Claim C7. For a source file that passes the three checks: when the language service
  returns no candidate change, the visit logs that it asks for the fixes and yields
  nothing, so the file is absent from the generator's sequence; when it returns more
  than one, the visit logs that and yields the edits of the first candidate only. There
  is no throw in either case.
\<close>

theorem zero_or_many_candidates:
  assumes "\<not> testNodeModules (fileName f)" and "\<not> isDeclarationFile f"
    and "files = None \<or> fileName f \<in> the files"
  shows "(getCombinedCodeFix (languageService project) rd (fileName f) = [] \<longrightarrow>
            genVisit project rd files f host = (None, log host (''Getting codefixes for '' @ fileName f)) \<and>
            genCodeFixesFromProject project rd files (f # fs) host =
              genCodeFixesFromProject project rd files fs (log host (''Getting codefixes for '' @ fileName f))) \<and>
         (length (getCombinedCodeFix (languageService project) rd (fileName f)) > 1 \<longrightarrow>
            genVisit project rd files f host =
              (Some \<lparr>fixFileName = fileName f,
                     fixTextChanges = textChanges (hd (getCombinedCodeFix (languageService project) rd (fileName f)))\<rparr>,
               log (log host (''Getting codefixes for '' @ fileName f)) (''Multiple fixes found for '' @ fileName f)) \<and>
            fst (genCodeFixesFromProject project rd files (f # fs) host) =
              \<lparr>fixFileName = fileName f,
                fixTextChanges = textChanges (hd (getCombinedCodeFix (languageService project) rd (fileName f)))\<rparr>
              # fst (genCodeFixesFromProject project rd files fs
                  (log (log host (''Getting codefixes for '' @ fileName f))
                     (''Multiple fixes found for '' @ fileName f))))"
proof -
  have v: "genVisit project rd files f host =
    (let host1 = log host (''Getting codefixes for '' @ fileName f);
         changes = getCombinedCodeFix (languageService project) rd (fileName f)
     in if length changes = 0 then (None, host1)
        else (Some \<lparr>fixFileName = fileName f, fixTextChanges = textChanges (hd changes)\<rparr>,
              if length changes > 1 then log host1 (''Multiple fixes found for '' @ fileName f) else host1))"
    using assms by (auto simp: genVisit_def Let_def)
  show ?thesis
    by (auto simp: v Let_def split: prod.split)
qed

theorem zero_or_many_candidates_witness:
  "getCombinedCodeFix (languageService demoProject) (sysReadFile demoTs) (fileName demoB) = [] \<and>
   genVisit demoProject (sysReadFile demoTs) None demoB demoHost
     = (None, log demoHost ''Getting codefixes for /proj/src/b.ts'') \<and>
   length (getCombinedCodeFix (languageService demoProject) (sysReadFile demoTs) (fileName demoA)) = 2 \<and>
   genVisit demoProject (sysReadFile demoTs) None demoA demoHost
     = (Some \<lparr>fixFileName = ''/proj/src/a.ts'', fixTextChanges = [edit 0 1 ''ZZ'', edit 5 0 ''-'']\<rparr>,
        log (log demoHost ''Getting codefixes for /proj/src/a.ts'')
          ''Multiple fixes found for /proj/src/a.ts'')"
proof -
  let ?rd = "sysReadFile demoTs"
  have nb: "\<not> testNodeModules (fileName demoB)" and na: "\<not> testNodeModules (fileName demoA)"
    by code_simp+
  have db: "\<not> isDeclarationFile demoB" and da: "\<not> isDeclarationFile demoA"
    by (simp_all add: demoB_def demoA_def)
  have fb: "fileName demoB = ''/proj/src/b.ts''" and fa: "fileName demoA = ''/proj/src/a.ts''"
    by (simp_all add: demoB_def demoA_def)
  have cb: "getCombinedCodeFix (languageService demoProject) ?rd (fileName demoB) = []"
    by (simp add: demoProject_def demoService_def fb)
  have ca: "getCombinedCodeFix (languageService demoProject) ?rd (fileName demoA)
      = [\<lparr>changeFileName = ''/proj/src/a.ts'', textChanges = [edit 0 1 ''ZZ'', edit 5 0 ''-'']\<rparr>,
         \<lparr>changeFileName = ''/proj/src/a.ts'', textChanges = [edit 0 0 ''//'']\<rparr>]"
    by (simp add: demoProject_def demoService_def fa)
  from zero_or_many_candidates [OF nb db, of None demoProject ?rd demoHost] cb
  have vb: "genVisit demoProject ?rd None demoB demoHost
     = (None, log demoHost ''Getting codefixes for /proj/src/b.ts'')"
    by (simp add: fb)
  from zero_or_many_candidates [OF na da, of None demoProject ?rd demoHost] ca
  have va: "genVisit demoProject ?rd None demoA demoHost
     = (Some \<lparr>fixFileName = ''/proj/src/a.ts'', fixTextChanges = [edit 0 1 ''ZZ'', edit 5 0 ''-'']\<rparr>,
        log (log demoHost ''Getting codefixes for /proj/src/a.ts'')
          ''Multiple fixes found for /proj/src/a.ts'')"
    by (simp add: fa)
  from cb vb ca va show ?thesis by simp
qed

section \<open>The output path\<close>

lemma splitSlash_nonempty: "splitSlash p \<noteq> []"
  by (induction p) (auto split: list.split)

lemma splitSlash_append: "splitSlash (a @ CHR ''/'' # b) = splitSlash a @ splitSlash b"
proof (induction a)
  case Nil
  show ?case by simp
next
  case (Cons c a)
  obtain x xs where "splitSlash a = x # xs"
    using splitSlash_nonempty [of a] by (cases "splitSlash a") auto
  with Cons show ?case by simp
qed

lemma splitSlash_no_slash: "CHR ''/'' \<notin> set seg \<Longrightarrow> splitSlash seg = [seg]"
  by (induction seg) auto

lemma joinSlash_Cons: "segs \<noteq> [] \<Longrightarrow> joinSlash (seg # segs) = seg @ CHR ''/'' # joinSlash segs"
  by (cases segs) simp_all

lemma splitSlash_joinSlash:
  "list_all cleanSegment segs \<Longrightarrow> segs \<noteq> [] \<Longrightarrow> splitSlash (joinSlash segs) = segs"
proof (induction segs)
  case Nil
  then show ?case by simp
next
  case (Cons seg segs)
  then have c: "CHR ''/'' \<notin> set seg" by (simp add: cleanSegment_def)
  show ?case
  proof (cases "segs = []")
    case True
    with c show ?thesis by (simp add: splitSlash_no_slash)
  next
    case False
    with Cons c show ?thesis
      by (simp add: joinSlash_Cons splitSlash_append splitSlash_no_slash)
  qed
qed

lemma pathSegments_joinSlash: "list_all cleanSegment segs \<Longrightarrow> pathSegments (joinSlash segs) = segs"
proof (cases "segs = []")
  case True
  then show ?thesis by (simp add: pathSegments_def)
next
  case False
  assume c: "list_all cleanSegment segs"
  then have "filter (\<lambda>seg. seg \<noteq> []) segs = segs"
    by (induction segs) (auto simp: cleanSegment_def)
  with c False show ?thesis by (simp add: pathSegments_def splitSlash_joinSlash)
qed

lemma pathSegments_append: "pathSegments (a @ CHR ''/'' # b) = pathSegments a @ pathSegments b"
  by (simp add: pathSegments_def splitSlash_append)

lemma pathSegments_Nil: "pathSegments [] = []"
  by (simp add: pathSegments_def)

lemma pathSegments_slash: "pathSegments (CHR ''/'' # b) = pathSegments b"
  by (simp add: pathSegments_def)

lemma normalizeSegments_clean:
  "list_all (\<lambda>seg. seg = [] \<or> cleanSegment seg) segs \<Longrightarrow>
   normalizeSegments allowAboveRoot res segs = res @ filter (\<lambda>seg. seg \<noteq> []) segs"
  by (induction segs arbitrary: res) (auto simp: cleanSegment_def)

lemma splitSlash_segments_clean:
  "list_all cleanSegment segs \<Longrightarrow> list_all (\<lambda>seg. seg = [] \<or> cleanSegment seg) (splitSlash (joinSlash segs))"
proof (cases "segs = []")
  case True
  then show ?thesis by simp
next
  case False
  assume c: "list_all cleanSegment segs"
  with False show ?thesis
    by (simp add: splitSlash_joinSlash list_all_iff)
qed

lemma plainPath_Nil: "plainPath []"
  by (simp add: plainPath_def)

lemma plainPath_append: "plainPath (a @ CHR ''/'' # b) \<longleftrightarrow> plainPath a \<and> plainPath b"
  by (simp add: plainPath_def splitSlash_append)

lemma plainPath_slash: "plainPath (CHR ''/'' # b) \<longleftrightarrow> plainPath b"
  using plainPath_append [of "[]" b] by (simp add: plainPath_Nil)

lemma plainPath_joinSlash: "list_all cleanSegment segs \<Longrightarrow> plainPath (joinSlash segs)"
  unfolding plainPath_def by (rule splitSlash_segments_clean)

lemma normalizeString_plain:
  "plainPath p \<Longrightarrow> normalizeString p allowAboveRoot = joinSlash (pathSegments p)"
  by (simp add: normalizeString_def plainPath_def pathSegments_def normalizeSegments_clean)

lemma joinSlash_append:
  "xs \<noteq> [] \<Longrightarrow> ys \<noteq> [] \<Longrightarrow> joinSlash (xs @ ys) = joinSlash xs @ CHR ''/'' # joinSlash ys"
proof (induction xs)
  case Nil
  then show ?case by simp
next
  case (Cons x xs)
  then show ?case by (cases "xs = []") (simp_all add: joinSlash_Cons)
qed

lemma isAbsolute_absolutePath: "isAbsolute (absolutePath segs)"
  by (simp add: isAbsolute_def absolutePath_def)

lemma pathSegments_absolutePath:
  "list_all cleanSegment segs \<Longrightarrow> pathSegments (absolutePath segs) = segs"
  by (simp add: absolutePath_def pathSegments_slash pathSegments_joinSlash)

lemma posixResolve_absolute1:
  assumes "list_all cleanSegment segs"
  shows "posixResolve processCwd [absolutePath segs] = absolutePath segs"
proof -
  have args: "resolveArgs (rev (processCwd # [absolutePath segs])) []
      = (CHR ''/'' # joinSlash segs @ CHR ''/'' # [], True)"
    by (simp add: isAbsolute_def absolutePath_def)
  have pl: "plainPath (CHR ''/'' # joinSlash segs @ CHR ''/'' # [])"
    using assms by (simp only: plainPath_slash plainPath_append plainPath_joinSlash plainPath_Nil)
  have ps: "pathSegments (CHR ''/'' # joinSlash segs @ CHR ''/'' # []) = segs"
    using assms
    by (simp only: pathSegments_slash pathSegments_append pathSegments_joinSlash pathSegments_Nil append_Nil2)
  show ?thesis
    unfolding posixResolve_def args
    by (simp only: prod.case Let_def normalizeString_plain [OF pl] ps) (simp add: absolutePath_def)
qed

lemma joinSlash_clean_relative:
  "list_all cleanSegment segs \<Longrightarrow> \<not> isAbsolute (joinSlash segs)"
proof (cases segs)
  case Nil
  then show ?thesis by (simp add: isAbsolute_def)
next
  case (Cons seg rest)
  assume "list_all cleanSegment segs"
  with Cons have "seg \<noteq> []" "CHR ''/'' \<notin> set seg" by (simp_all add: cleanSegment_def)
  then obtain c cs where "seg = c # cs" "c \<noteq> CHR ''/''" by (cases seg) auto
  with Cons show ?thesis by (cases rest) (simp_all add: isAbsolute_def)
qed

lemma joinSlash_eq_Nil: "list_all cleanSegment segs \<Longrightarrow> joinSlash segs = [] \<longleftrightarrow> segs = []"
proof (cases segs)
  case Nil
  then show ?thesis by simp
next
  case (Cons seg rest)
  assume "list_all cleanSegment segs"
  with Cons have "seg \<noteq> []" by (simp add: cleanSegment_def)
  with Cons show ?thesis by (cases rest) simp_all
qed

lemma posixResolve_absolute2:
  assumes "list_all cleanSegment out" "list_all cleanSegment rel"
  shows "posixResolve processCwd [absolutePath out, joinSlash rel] = absolutePath (out @ rel)"
proof (cases "rel = []")
  case True
  have "resolveArgs (rev (processCwd # [absolutePath out, joinSlash rel])) []
      = resolveArgs (rev (processCwd # [absolutePath out])) []"
    using True by simp
  then have "posixResolve processCwd [absolutePath out, joinSlash rel]
      = posixResolve processCwd [absolutePath out]"
    by (simp only: posixResolve_def)
  with posixResolve_absolute1 [OF assms(1), of processCwd] True show ?thesis
    by simp
next
  case False
  have r: "joinSlash rel \<noteq> []" "\<not> isAbsolute (joinSlash rel)"
    using assms(2) False joinSlash_eq_Nil joinSlash_clean_relative by auto
  let ?p = "CHR ''/'' # joinSlash out @ CHR ''/'' # joinSlash rel @ CHR ''/'' # []"
  have args: "resolveArgs (rev (processCwd # [absolutePath out, joinSlash rel])) [] = (?p, True)"
    using r by (simp add: isAbsolute_def absolutePath_def)
  have pl: "plainPath ?p"
    using assms by (simp only: plainPath_slash plainPath_append plainPath_joinSlash plainPath_Nil)
  have ps: "pathSegments ?p = out @ rel"
    using assms
    by (simp only: pathSegments_slash pathSegments_append pathSegments_joinSlash pathSegments_Nil append_Nil2)
  show ?thesis
    unfolding posixResolve_def args
    by (simp only: prod.case Let_def normalizeString_plain [OF pl] ps) (simp add: absolutePath_def)
qed

lemma dropCommon_Nil: "dropCommon [] ys = ([], ys)"
  by (cases ys) simp_all

lemma dropCommon_prefix: "dropCommon xs (xs @ ys) = ([], ys)"
  by (induction xs) (simp_all add: dropCommon_Nil)

lemma posixRelative_under:
  assumes "list_all cleanSegment cfg" "list_all cleanSegment rel"
  shows "posixRelative processCwd (absolutePath cfg) (absolutePath (cfg @ rel)) = joinSlash rel"
proof (cases "rel = []")
  case True
  then show ?thesis by (simp add: posixRelative_def)
next
  case False
  have both: "list_all cleanSegment (cfg @ rel)"
    using assms by simp
  have ne: "absolutePath cfg \<noteq> absolutePath (cfg @ rel)"
  proof
    assume "absolutePath cfg = absolutePath (cfg @ rel)"
    then have "pathSegments (absolutePath cfg) = pathSegments (absolutePath (cfg @ rel))" by simp
    then have "cfg = cfg @ rel"
      by (simp only: pathSegments_absolutePath [OF assms(1)] pathSegments_absolutePath [OF both])
    with False show False by simp
  qed
  show ?thesis
    unfolding posixRelative_def
    using ne
    by (simp only: posixResolve_absolute1 [OF assms(1)] posixResolve_absolute1 [OF both]
        pathSegments_absolutePath [OF assms(1)] pathSegments_absolutePath [OF both]
        dropCommon_prefix Let_def if_False prod.case list.map append_Nil)
qed

lemma posixDirname_file:
  assumes "list_all cleanSegment cfg" "cleanSegment base"
  shows "posixDirname (absolutePath (cfg @ [base])) = absolutePath cfg"
proof -
  from assms(2) have b: "base \<noteq> []" "CHR ''/'' \<notin> set base"
    by (simp_all add: cleanSegment_def)
  then have lastb: "last base \<noteq> CHR ''/''"
    by (metis last_in_set)
  have dw1: "dropWhile (\<lambda>c. c = CHR ''/'') (rev base @ X) = rev base @ X" for X
    using b lastb by (cases "rev base") (auto simp: hd_rev)
  have dw2: "dropWhile (\<lambda>c. c \<noteq> CHR ''/'') (rev base @ CHR ''/'' # X) = CHR ''/'' # X" for X
    using b by (auto simp: dropWhile_append3)
  have dw3: "dropWhile (\<lambda>c. c \<noteq> CHR ''/'') (rev base) = []"
    using b by auto
  show ?thesis
  proof (cases "cfg = []")
    case True
    then show ?thesis
      using dw1 [of "[]"] dw3
      by (simp add: posixDirname_def absolutePath_def isAbsolute_def Let_def)
  next
    case False
    then have j: "joinSlash (cfg @ [base]) = joinSlash cfg @ CHR ''/'' # base"
      by (simp add: joinSlash_append)
    have jn: "joinSlash cfg \<noteq> []"
      using assms(1) False joinSlash_eq_Nil by blast
    show ?thesis
      using dw1 [of "CHR ''/'' # rev (joinSlash cfg)"] dw2 [of "rev (joinSlash cfg)"] jn
      by (simp add: posixDirname_def absolutePath_def isAbsolute_def Let_def j)
  qed
qed

text \<open>
  Claim C8. The output location of a file is its path relative to the directory of the
  configuration file, resolved against the output folder. With POSIX paths, for a
  configuration file in the directory \<open>/cfg\<close>, an output folder \<open>/out\<close> and a file at
  \<open>/cfg/rel\<close> (each a sequence of segments), the output location is \<open>/out/rel\<close>: the
  directories under the configuration's directory are mirrored under the output folder.
\<close>

theorem getOutputFilePath_mirrors:
  "getOutputFilePath P filePath opt =
     pathResolve P [outputFolder opt,
       pathRelative P (pathDirname P (tsconfig opt)) (pathResolve P [filePath])] \<and>
   (list_all cleanSegment cfg \<and> list_all cleanSegment rel \<and> list_all cleanSegment out \<and>
    cleanSegment base \<and> tsconfig opt = absolutePath (cfg @ [base]) \<and>
    outputFolder opt = absolutePath out \<longrightarrow>
      getOutputFilePath (posix processCwd) (absolutePath (cfg @ rel)) opt = absolutePath (out @ rel))"
proof (intro conjI impI)
  show "getOutputFilePath P filePath opt =
     pathResolve P [outputFolder opt,
       pathRelative P (pathDirname P (tsconfig opt)) (pathResolve P [filePath])]"
    by (simp add: getOutputFilePath_def getRelativePath_def getDirectory_def)
next
  assume h: "list_all cleanSegment cfg \<and> list_all cleanSegment rel \<and> list_all cleanSegment out \<and>
    cleanSegment base \<and> tsconfig opt = absolutePath (cfg @ [base]) \<and>
    outputFolder opt = absolutePath out"
  then have cfg: "list_all cleanSegment cfg" and rel: "list_all cleanSegment rel"
    and out: "list_all cleanSegment out" and base: "cleanSegment base"
    and t: "tsconfig opt = absolutePath (cfg @ [base])" and o: "outputFolder opt = absolutePath out"
    by simp_all
  from cfg rel have both: "list_all cleanSegment (cfg @ rel)" by simp
  have "getOutputFilePath (posix processCwd) (absolutePath (cfg @ rel)) opt =
      posixResolve processCwd [absolutePath out,
        posixRelative processCwd (posixDirname (absolutePath (cfg @ [base])))
          (posixResolve processCwd [absolutePath (cfg @ rel)])]"
    by (simp add: getOutputFilePath_def getRelativePath_def getDirectory_def posix_def t o)
  also have "\<dots> = posixResolve processCwd [absolutePath out, joinSlash rel]"
    by (simp only: posixDirname_file [OF cfg base] posixResolve_absolute1 [OF both]
        posixRelative_under [OF cfg rel])
  also have "\<dots> = absolutePath (out @ rel)"
    using out rel by (rule posixResolve_absolute2)
  finally show "getOutputFilePath (posix processCwd) (absolutePath (cfg @ rel)) opt
      = absolutePath (out @ rel)" .
qed

theorem getOutputFilePath_mirrors_witness:
  "tsconfig demoOptions = ''/proj/tsconfig.json'' \<and> outputFolder demoOptions = ''/proj/out'' \<and>
   getOutputFilePath (posix ''/home'') ''/proj/src/x.ts'' demoOptions = ''/proj/out/src/x.ts''"
proof -
  have c: "list_all cleanSegment [''proj''] \<and> list_all cleanSegment [''src'', ''x.ts''] \<and>
      list_all cleanSegment [''proj'', ''out''] \<and> cleanSegment ''tsconfig.json'' \<and>
      tsconfig demoOptions = absolutePath ([''proj''] @ [''tsconfig.json'']) \<and>
      outputFolder demoOptions = absolutePath [''proj'', ''out'']"
    by (simp add: cleanSegment_def absolutePath_def demoOptions_def)
  from getOutputFilePath_mirrors [of P filePath demoOptions "[''proj'']" "[''src'', ''x.ts'']"
      "[''proj'', ''out'']" "''tsconfig.json''" "''/home''"] c
  have "getOutputFilePath (posix ''/home'') (absolutePath ([''proj''] @ [''src'', ''x.ts''])) demoOptions
      = absolutePath ([''proj'', ''out''] @ [''src'', ''x.ts''])"
    by blast
  then show ?thesis
    by (simp add: absolutePath_def demoOptions_def)
qed

end
